theory Spec2Isabelle
  imports
    Main
    "HOL-Library.Sublist"
    "HOL-Library.Finite_Map"
    "HOL-Library.Char_ord"
    "HOL-Library.List_Lexorder"
begin

section \<open>Paths and names\<close>

text \<open>
  A \<^verbatim>\<open>pathlib.Path\<close> is the list of its components below the root (the root
  itself is the empty list; a relative path is read as resolved against the working
  directory).  Components are plain names: \<^verbatim>\<open>.\<close> never occurs in a parsed path and
  \<^verbatim>\<open>..\<close> is never produced by a directory listing.  \<^verbatim>\<open>str(p)\<close> and
  \<^verbatim>\<open>Path(s)\<close> are mutually inverse on such paths, so a dictionary field that holds
  \<^verbatim>\<open>str(p)\<close> holds \<open>p\<close> here.
\<close>

type_synonym path = "string list"

text \<open>\<^verbatim>\<open>p.name\<close>: the last component, empty for the root.\<close>

definition name :: "path \<Rightarrow> string" where
  "name p = (if p = [] then [] else last p)"

text \<open>\<^verbatim>\<open>p.parent\<close>: the root is its own parent.\<close>

definition parent :: "path \<Rightarrow> path" where
  "parent p = butlast p"

text \<open>
  \<^verbatim>\<open>d / f\<close> for a bare file name \<open>f\<close> (one without a separator), which is the only
  way the program joins paths: joining the empty string gives \<open>d\<close> back.
\<close>

definition joinpath :: "path \<Rightarrow> string \<Rightarrow> path" where
  "joinpath d f = (if f = [] then d else d @ [f])"

text \<open>
  \<^verbatim>\<open>name.rfind('.')\<close> as an option: the index of the last dot.
\<close>

fun rfind_dot :: "string \<Rightarrow> nat option" where
  "rfind_dot [] = None"
| "rfind_dot (c # cs) =
     (case rfind_dot cs of
        Some i \<Rightarrow> Some (Suc i)
      | None \<Rightarrow> if c = CHR ''.'' then Some 0 else None)"

text \<open>
  \<^verbatim>\<open>p.suffix\<close> and \<^verbatim>\<open>p.stem\<close>, on the name: the suffix starts at the last dot when
  that dot is neither the first nor the last character of the name.
\<close>

definition suffix_of :: "string \<Rightarrow> string" where
  "suffix_of nm =
     (case rfind_dot nm of
        Some i \<Rightarrow> if 0 < i \<and> i < length nm - 1 then drop i nm else []
      | None \<Rightarrow> [])"

definition stem_of :: "string \<Rightarrow> string" where
  "stem_of nm =
     (case rfind_dot nm of
        Some i \<Rightarrow> if 0 < i \<and> i < length nm - 1 then take i nm else nm
      | None \<Rightarrow> nm)"

definition suffix :: "path \<Rightarrow> string" where
  "suffix p = suffix_of (name p)"

definition stem :: "path \<Rightarrow> string" where
  "stem p = stem_of (name p)"

text \<open>\<^verbatim>\<open>str(n)\<close> for a non-negative integer: its decimal digits.\<close>

definition digit_char :: "nat \<Rightarrow> char" where
  "digit_char d = ''0123456789'' ! d"

function str_nat :: "nat \<Rightarrow> string" where
  "str_nat n = (if n < 10 then [digit_char n] else str_nat (n div 10) @ [digit_char (n mod 10)])"
  by pat_completeness auto
termination
  by (relation "measure id") auto

declare str_nat.simps [simp del]

section \<open>The file system\<close>

text \<open>
  A naive local time stamp, as \<^verbatim>\<open>datetime\<close> holds it; Python compares two of them
  field by field, from the year down.
\<close>

record datetime =
  year :: nat
  month :: nat
  day :: nat
  hour :: nat
  minute :: nat
  second :: nat
  microsecond :: nat

text \<open>
  What a path names: a regular file with its content and its modification time
  (\<open>None\<close> when \<^verbatim>\<open>stat()\<close> on it raises), or a directory.
\<close>

datatype node = File (content: string) (st_mtime: "datetime option") | Dir

type_synonym filesystem = "(path, node) fmap"

definition path_exists :: "filesystem \<Rightarrow> path \<Rightarrow> bool" where
  "path_exists fs p = (fmlookup fs p \<noteq> None)"

definition is_dir :: "filesystem \<Rightarrow> path \<Rightarrow> bool" where
  "is_dir fs p = (fmlookup fs p = Some Dir)"

definition is_file :: "filesystem \<Rightarrow> path \<Rightarrow> bool" where
  "is_file fs p = (case fmlookup fs p of Some (File c t) \<Rightarrow> True | _ \<Rightarrow> False)"

section \<open>The destination namer\<close>

text \<open>The candidate \<^verbatim>\<open>dest_dir / f"{base} ({counter}){ext}"\<close>.\<close>

definition candidate :: "path \<Rightarrow> string \<Rightarrow> string \<Rightarrow> nat \<Rightarrow> path" where
  "candidate dest_dir base ext counter =
     joinpath dest_dir (base @ '' ('' @ str_nat counter @ '')'' @ ext)"

lemma digit_char_inj: "a < 10 \<Longrightarrow> b < 10 \<Longrightarrow> digit_char a = digit_char b \<Longrightarrow> a = b"
proof -
  assume a: "a < 10" and b: "b < 10" and e: "digit_char a = digit_char b"
  have d: "distinct ''0123456789''" by simp
  have "a < length ''0123456789''" "b < length ''0123456789''" using a b by simp_all
  with d e show "a = b" unfolding digit_char_def by (simp only: nth_eq_iff_index_eq)
qed

lemma str_nat_nonempty: "str_nat n \<noteq> []"
  by (subst str_nat.simps) simp

lemma str_nat_inj: "str_nat n = str_nat m \<Longrightarrow> n = m"
proof (induction n arbitrary: m rule: str_nat.induct)
  case (1 n)
  show ?case
  proof (cases "n < 10")
    case small_n: True
    show ?thesis
    proof (cases "m < 10")
      case True
      with small_n "1.prems" show ?thesis
        by (simp add: str_nat.simps [of n] str_nat.simps [of m] digit_char_inj)
    next
      case False
      with small_n "1.prems" str_nat_nonempty [of "m div 10"] show ?thesis
        by (simp add: str_nat.simps [of n] str_nat.simps [of m])
    qed
  next
    case big_n: False
    show ?thesis
    proof (cases "m < 10")
      case True
      with big_n "1.prems" str_nat_nonempty [of "n div 10"] show ?thesis
        by (simp add: str_nat.simps [of n] str_nat.simps [of m])
    next
      case False
      with big_n "1.prems" have
        e: "str_nat (n div 10) = str_nat (m div 10)"
        and d: "digit_char (n mod 10) = digit_char (m mod 10)"
        by (simp_all add: str_nat.simps [of n] str_nat.simps [of m])
      from "1.IH" [OF big_n e] have q: "n div 10 = m div 10" .
      from d have r: "n mod 10 = m mod 10" by (auto intro: digit_char_inj)
      from q r show ?thesis by (metis div_mult_mod_eq)
    qed
  qed
qed

lemma candidate_inj: "candidate d base ext n = candidate d base ext m \<Longrightarrow> n = m"
  by (simp add: candidate_def joinpath_def str_nat_inj)

lemma finite_taken:
  "finite {n. path_exists fs (candidate d base ext n)}"
proof -
  have "inj_on (candidate d base ext) {n. path_exists fs (candidate d base ext n)}"
    by (rule inj_onI) (rule candidate_inj)
  moreover have "candidate d base ext ` {n. path_exists fs (candidate d base ext n)} \<subseteq> fmdom' fs"
    by (auto simp: path_exists_def fmdom'I)
  ultimately show ?thesis
    by (meson finite_fmdom' finite_subset finite_imageD)
qed

text \<open>
  The \<^verbatim>\<open>while True\<close> loop of \<^verbatim>\<open>_unique_dest\<close>.  It ends because the candidates of
  different counters are different paths and only finitely many paths exist.
\<close>

function probe :: "filesystem \<Rightarrow> path \<Rightarrow> string \<Rightarrow> string \<Rightarrow> nat \<Rightarrow> path" where
  "probe fs dest_dir base ext counter =
     (let candidate_path = candidate dest_dir base ext counter
      in if \<not> path_exists fs candidate_path then candidate_path
         else probe fs dest_dir base ext (counter + 1))"
  by pat_completeness auto
termination
proof (relation "measure (\<lambda>(fs, d, base, ext, counter).
         card {n. counter \<le> n \<and> path_exists fs (candidate d base ext n)})")
  show "wf (measure (\<lambda>(fs, d, base, ext, counter).
         card {n. counter \<le> n \<and> path_exists fs (candidate d base ext n)}))"
    by simp
next
  fix fs :: filesystem and dest_dir base ext counter candidate_path
  assume c: "candidate_path = candidate dest_dir base ext counter"
    and e: "\<not> \<not> path_exists fs candidate_path"
  let ?A = "{n. counter \<le> n \<and> path_exists fs (candidate dest_dir base ext n)}"
  let ?B = "{n. counter + 1 \<le> n \<and> path_exists fs (candidate dest_dir base ext n)}"
  have fin: "finite ?A"
    by (rule finite_subset [OF _ finite_taken [of fs dest_dir base ext]]) auto
  have "counter \<in> ?A" "counter \<notin> ?B" using c e by auto
  moreover have "?B \<subseteq> ?A" by auto
  ultimately have "?B \<subset> ?A" by blast
  with fin have "card ?B < card ?A" by (rule psubset_card_mono)
  then show "((fs, dest_dir, base, ext, counter + 1), (fs, dest_dir, base, ext, counter))
      \<in> measure (\<lambda>(fs, d, base, ext, counter).
          card {n. counter \<le> n \<and> path_exists fs (candidate d base ext n)})"
    by simp
qed

declare probe.simps [simp del]

definition unique_dest :: "filesystem \<Rightarrow> path \<Rightarrow> string \<Rightarrow> path" where
  "unique_dest fs dest_dir filename =
     (let dest_path = joinpath dest_dir filename
      in if \<not> path_exists fs dest_path then dest_path
         else probe fs dest_dir (stem dest_path) (suffix dest_path) 1)"

lemma probe_least:
  "\<exists>n\<ge>counter. probe fs d base ext counter = candidate d base ext n
      \<and> \<not> path_exists fs (candidate d base ext n)
      \<and> (\<forall>k. counter \<le> k \<and> k < n \<longrightarrow> path_exists fs (candidate d base ext k))"
proof (induction fs d base ext counter rule: probe.induct)
  case (1 fs d base ext counter)
  show ?case
  proof (cases "path_exists fs (candidate d base ext counter)")
    case False
    then have "probe fs d base ext counter = candidate d base ext counter"
      by (simp add: probe.simps [of fs d base ext counter])
    with False show ?thesis by auto
  next
    case True
    then have unfold: "probe fs d base ext counter = probe fs d base ext (counter + 1)"
      by (simp add: probe.simps [of fs d base ext counter])
    from "1.IH" [OF refl] True obtain n where n: "counter + 1 \<le> n"
      "probe fs d base ext (counter + 1) = candidate d base ext n"
      "\<not> path_exists fs (candidate d base ext n)"
      "\<forall>k. counter + 1 \<le> k \<and> k < n \<longrightarrow> path_exists fs (candidate d base ext k)"
      by auto
    have "\<forall>k. counter \<le> k \<and> k < n \<longrightarrow> path_exists fs (candidate d base ext k)"
    proof (intro allI impI)
      fix k assume k: "counter \<le> k \<and> k < n"
      show "path_exists fs (candidate d base ext k)"
      proof (cases "k = counter")
        case True with \<open>path_exists fs (candidate d base ext counter)\<close> show ?thesis by simp
      next
        case False with k n(4) show ?thesis by simp
      qed
    qed
    with n unfold show ?thesis
      by (intro exI [of _ n]) simp
  qed
qed

lemma name_joinpath: "filename \<noteq> [] \<Longrightarrow> name (joinpath d filename) = filename"
  by (simp add: name_def joinpath_def)

text \<open>
  Claim C5.  For a directory \<open>d\<close> and a file name: when \<open>d / filename\<close> does not exist,
  \<open>unique_dest\<close> returns it unchanged; otherwise it returns
  \<open>d / "{stem} ({n}){ext}"\<close> for the smallest \<open>n \<ge> 1\<close> whose path does not exist,
  every smaller counter from 1 on being taken.  The function is total, so it always
  returns.
\<close>

theorem unique_dest_first_free:
  assumes "filename \<noteq> []"
  shows "(\<not> path_exists fs (joinpath d filename) \<longrightarrow>
            unique_dest fs d filename = joinpath d filename)
       \<and> (path_exists fs (joinpath d filename) \<longrightarrow>
            (\<exists>n\<ge>1.
               unique_dest fs d filename =
                 joinpath d (stem_of filename @ '' ('' @ str_nat n @ '')'' @ suffix_of filename)
             \<and> \<not> path_exists fs
                 (joinpath d (stem_of filename @ '' ('' @ str_nat n @ '')'' @ suffix_of filename))
             \<and> (\<forall>k. 1 \<le> k \<and> k < n \<longrightarrow> path_exists fs
                 (joinpath d (stem_of filename @ '' ('' @ str_nat k @ '')'' @ suffix_of filename)))))"
proof (intro conjI impI)
  assume "\<not> path_exists fs (joinpath d filename)"
  then show "unique_dest fs d filename = joinpath d filename"
    by (simp add: unique_dest_def)
next
  assume taken: "path_exists fs (joinpath d filename)"
  have nm: "stem (joinpath d filename) = stem_of filename"
    "suffix (joinpath d filename) = suffix_of filename"
    using assms by (simp_all add: stem_def suffix_def name_joinpath)
  from taken have "unique_dest fs d filename = probe fs d (stem_of filename) (suffix_of filename) 1"
    by (simp add: unique_dest_def nm)
  with probe_least [of 1 fs d "stem_of filename" "suffix_of filename"]
  show "\<exists>n\<ge>1.
     unique_dest fs d filename =
       joinpath d (stem_of filename @ '' ('' @ str_nat n @ '')'' @ suffix_of filename)
     \<and> \<not> path_exists fs
       (joinpath d (stem_of filename @ '' ('' @ str_nat n @ '')'' @ suffix_of filename))
     \<and> (\<forall>k. 1 \<le> k \<and> k < n \<longrightarrow> path_exists fs
       (joinpath d (stem_of filename @ '' ('' @ str_nat k @ '')'' @ suffix_of filename)))"
    by (simp add: candidate_def)
qed

definition out_with_two_taken :: filesystem where
  "out_with_two_taken =
     fmupd [''out'', ''a (1).txt''] (File ''second'' None)
       (fmupd [''out'', ''a.txt''] (File ''first'' None)
         (fmupd [''out''] Dir fmempty))"

theorem unique_dest_first_free_witness:
  "''a.txt'' \<noteq> []
   \<and> path_exists out_with_two_taken (joinpath [''out''] ''a.txt'')
   \<and> unique_dest out_with_two_taken [''out''] ''a.txt'' = [''out'', ''a (2).txt'']
   \<and> (\<exists>n\<ge>1.
         unique_dest out_with_two_taken [''out''] ''a.txt'' =
           joinpath [''out''] (stem_of ''a.txt'' @ '' ('' @ str_nat n @ '')'' @ suffix_of ''a.txt'')
       \<and> \<not> path_exists out_with_two_taken
           (joinpath [''out''] (stem_of ''a.txt'' @ '' ('' @ str_nat n @ '')'' @ suffix_of ''a.txt''))
       \<and> (\<forall>k. 1 \<le> k \<and> k < n \<longrightarrow> path_exists out_with_two_taken
           (joinpath [''out''] (stem_of ''a.txt'' @ '' ('' @ str_nat k @ '')'' @ suffix_of ''a.txt''))))"
proof -
  have h: "''a.txt'' \<noteq> []" by simp
  have taken: "path_exists out_with_two_taken (joinpath [''out''] ''a.txt'')"
    by (simp add: out_with_two_taken_def path_exists_def joinpath_def)
  have val: "unique_dest out_with_two_taken [''out''] ''a.txt'' = [''out'', ''a (2).txt'']"
    by (simp add: unique_dest_def out_with_two_taken_def path_exists_def joinpath_def
        probe.simps candidate_def stem_def suffix_def name_def stem_of_def suffix_of_def
        str_nat.simps digit_char_def)
  from unique_dest_first_free [OF h, of out_with_two_taken "[''out'']"] h taken val
  show ?thesis by simp
qed

section \<open>Library calls on the file system\<close>

text \<open>
  The exceptions the library calls raise, as far as the state of the tree decides
  them, and the text \<^verbatim>\<open>str(e)\<close> gives for each.
\<close>

datatype os_error =
    FileNotFoundError path
  | FileExistsError path
  | NotADirectoryError path
  | ShutilError string
  | ValueError string

definition str_path :: "path \<Rightarrow> string" where
  "str_path p = (if p = [] then ''/'' else concat (map (\<lambda>c. ''/'' @ c) p))"

text \<open>A path as the messages show it, between single quotes.\<close>

definition quoted :: "path \<Rightarrow> string" where
  "quoted p = [CHR 0x27] @ str_path p @ [CHR 0x27]"

fun str_error :: "os_error \<Rightarrow> string" where
  "str_error (FileNotFoundError p) = ''[Errno 2] No such file or directory: '' @ quoted p"
| "str_error (FileExistsError p) = ''[Errno 17] File exists: '' @ quoted p"
| "str_error (NotADirectoryError p) = ''[Errno 20] Not a directory: '' @ quoted p"
| "str_error (ShutilError m) = m"
| "str_error (ValueError m) = m"

text \<open>
  \<^verbatim>\<open>Path.mkdir(parents=True, exist_ok=True)\<close>: a regular file at the path or above it
  makes the call raise; otherwise every missing directory down to the path is created
  and existing ones are left alone.
\<close>

definition mkdir_parents :: "filesystem \<Rightarrow> path \<Rightarrow> os_error + filesystem" where
  "mkdir_parents fs p =
     (case find (is_file fs) (prefixes p) of
        Some q \<Rightarrow> Inl (if q = p then FileExistsError p else NotADirectoryError p)
      | None \<Rightarrow>
          Inr (fold (\<lambda>q m. if path_exists m q then m else fmupd q Dir m) (prefixes p) fs))"

text \<open>
  \<^verbatim>\<open>os.rename\<close> of a directory: everything at or below \<open>src\<close> is found at the same
  place below \<open>dst\<close> afterwards, and nothing is left at or below \<open>src\<close>.
\<close>

definition rename_tree :: "filesystem \<Rightarrow> path \<Rightarrow> path \<Rightarrow> filesystem" where
  "rename_tree fs src dst =
     fmadd (fmfilter (\<lambda>p. \<not> prefix src p \<and> \<not> prefix dst p) fs)
       (fmap_of_list
          (map (\<lambda>p. (dst @ drop (length src) p, the (fmlookup fs p)))
             (filter (prefix src) (sorted_list_of_fset (fmdom fs)))))"

lemma map_of_rekey_Some:
  "inj_on f (set xs) \<Longrightarrow> q \<in> set xs \<Longrightarrow> map_of (map (\<lambda>q. (f q, g q)) xs) (f q) = Some (g q)"
  by (induction xs) (auto simp: inj_on_def)

lemma map_of_rekey_None:
  "k \<notin> f ` set xs \<Longrightarrow> map_of (map (\<lambda>q. (f q, g q)) xs) k = None"
  by (induction xs) auto

lemma fmlookup_add_case:
  "fmlookup (fmadd m n) x = (case fmlookup n x of None \<Rightarrow> fmlookup m x | Some v \<Rightarrow> Some v)"
  by (cases "fmlookup n x") (auto simp: fmlookup_dom_iff)

lemma fmlookup_rename_tree:
  "fmlookup (rename_tree fs src dst) p =
     (if prefix dst p then fmlookup fs (src @ drop (length dst) p)
      else if prefix src p then None
      else fmlookup fs p)"
proof -
  let ?f = "\<lambda>q. dst @ drop (length src) q"
  let ?g = "\<lambda>q. the (fmlookup fs q)"
  let ?xs = "filter (prefix src) (sorted_list_of_fset (fmdom fs))"
  let ?moved = "fmap_of_list (map (\<lambda>q. (?f q, ?g q)) ?xs)"
  have xs: "set ?xs = {q. prefix src q \<and> fmlookup fs q \<noteq> None}"
    by (auto simp: fmlookup_dom_iff)
  have inj: "inj_on ?f (set ?xs)"
    by (auto simp: inj_on_def prefix_def)
  have moved: "fmlookup ?moved p =
      (if prefix dst p then fmlookup fs (src @ drop (length dst) p) else None)"
  proof (cases "prefix dst p \<and> fmlookup fs (src @ drop (length dst) p) \<noteq> None")
    case True
    let ?q = "src @ drop (length dst) p"
    from True have q: "?q \<in> set ?xs" unfolding xs by simp
    from True have "?f ?q = p" by (auto simp: prefix_def)
    with map_of_rekey_Some [OF inj q, of ?g] True show ?thesis
      by (auto simp: fmlookup_of_list)
  next
    case False
    have "p \<notin> ?f ` set ?xs"
    proof
      assume "p \<in> ?f ` set ?xs"
      then obtain q where q: "q \<in> set ?xs" "p = ?f q" by blast
      from q(1) have in_fs: "prefix src q" "fmlookup fs q \<noteq> None"
        unfolding xs by simp_all
      with q(2) have "prefix dst p" "src @ drop (length dst) p = q"
        by (auto simp: prefix_def)
      with in_fs False show False by simp
    qed
    from map_of_rekey_None [OF this, of ?g] False show ?thesis
      by (auto simp: fmlookup_of_list)
  qed
  have "fmlookup (rename_tree fs src dst) p =
      (case fmlookup ?moved p of
         None \<Rightarrow> fmlookup (fmfilter (\<lambda>p. \<not> prefix src p \<and> \<not> prefix dst p) fs) p
       | Some v \<Rightarrow> Some v)"
    unfolding rename_tree_def by (rule fmlookup_add_case)
  also have "\<dots> = (if prefix dst p then fmlookup fs (src @ drop (length dst) p)
      else if prefix src p then None
      else fmlookup fs p)"
    unfolding moved by (simp split: option.split)
  finally show ?thesis .
qed

text \<open>
  \<^verbatim>\<open>shutil.move(src, dst)\<close>.  A destination that is an existing directory receives the
  source under its own name (unless it is the source itself, or the name is taken there).
  A missing source raises.  A regular file is renamed onto the target, whose parent must
  be a directory.  A directory cannot be moved below itself or onto a file; when the
  rename is not possible as such the tree is copied, which creates the missing parents.
\<close>

definition shutil_move :: "filesystem \<Rightarrow> path \<Rightarrow> path \<Rightarrow> os_error + filesystem" where
  "shutil_move fs src dst =
     (if is_dir fs dst \<and> src = dst then Inr fs
      else
        let real_dst = (if is_dir fs dst then joinpath dst (name src) else dst)
        in if is_dir fs dst \<and> path_exists fs real_dst
           then Inl (ShutilError (''Destination path '' @ quoted real_dst @ '' already exists''))
           else
             (case fmlookup fs src of
                None \<Rightarrow> Inl (FileNotFoundError src)
              | Some (File c t) \<Rightarrow>
                  if is_dir fs (parent real_dst)
                  then Inr (fmupd real_dst (File c t) (fmdrop src fs))
                  else if path_exists fs (parent real_dst)
                  then Inl (NotADirectoryError real_dst)
                  else Inl (FileNotFoundError real_dst)
              | Some Dir \<Rightarrow>
                  if prefix src real_dst
                  then Inl (ShutilError (''Cannot move a directory '' @ quoted src
                              @ '' into itself '' @ quoted dst @ ''.''))
                  else if path_exists fs real_dst then Inl (FileExistsError real_dst)
                  else
                    (case mkdir_parents fs (parent real_dst) of
                       Inl e \<Rightarrow> Inl e
                     | Inr fs1 \<Rightarrow> Inr (rename_tree fs1 src real_dst))))"

section \<open>The move executor and the undo ledger\<close>

text \<open>
  One entry of a result list, \<^verbatim>\<open>{"source": ..., "dest": ..., "action": ...}\<close>, and
  the dictionary \<^verbatim>\<open>{"timestamp": ..., "operations": [...]}\<close> kept in \<^verbatim>\<open>UNDO_FILE\<close>.
\<close>

record outcome =
  source :: path
  dest :: path
  action :: string

record batch =
  timestamp :: string
  operations :: "outcome list"

text \<open>
  What \<^verbatim>\<open>UNDO_FILE\<close> holds: nothing (the file is absent), a batch as
  \<^verbatim>\<open>save_undo_record\<close> wrote it, or the rest of a write that broke off, which
  \<^verbatim>\<open>json.load\<close> refuses.
\<close>

datatype ledger = Absent | Stored batch | Torn

text \<open>
  How a write of \<^verbatim>\<open>UNDO_FILE\<close> fails when it does: \<^verbatim>\<open>open\<close> raises and the file is
  as it was, or \<^verbatim>\<open>json.dump\<close> raises after \<^verbatim>\<open>open\<close> has emptied the file.
\<close>

datatype write_fault = OpenFails | DumpFails

text \<open>
  The state the program acts on: the file tree, the content of \<^verbatim>\<open>UNDO_FILE\<close>, the
  calls the progress callback has received, and what the system does to the three
  accesses to \<^verbatim>\<open>UNDO_FILE\<close>: whether and how writing it fails, whether reading it
  raises, whether \<^verbatim>\<open>unlink\<close> raises.  The log file is write-only and left out.
\<close>

record world =
  disk :: filesystem
  undo_file :: ledger
  progress :: "(nat \<times> nat) list"
  write_fault :: "write_fault option"
  read_fails :: bool
  unlink_fails :: bool

text \<open>
  A progress callback is \<open>None\<close> when the caller passes none, and otherwise tells
  whether it raises when called.  The program swallows that exception, so both cases
  leave the same trace: the call with its two arguments.
\<close>

type_synonym callback = "bool option"

definition notify :: "callback \<Rightarrow> nat \<Rightarrow> nat \<Rightarrow> world \<Rightarrow> world" where
  "notify progress_callback completed total' w =
     (case progress_callback of
        None \<Rightarrow> w
      | Some raises \<Rightarrow> w\<lparr>progress := progress w @ [(completed, total')]\<rparr>)"

text \<open>The body of the \<^verbatim>\<open>for src in files\<close> loop of \<^verbatim>\<open>move_files\<close>, up to the append.\<close>

definition move_one :: "path \<Rightarrow> bool \<Rightarrow> path \<Rightarrow> world \<Rightarrow> outcome \<times> world" where
  "move_one destination dry_run src w =
     (let dest_path = unique_dest (disk w) destination (name src)
      in if dry_run
         then (\<lparr>source = src, dest = dest_path, action = ''would_move''\<rparr>, w)
         else
           (case shutil_move (disk w) src dest_path of
              Inr moved_disk \<Rightarrow>
                (\<lparr>source = src, dest = dest_path, action = ''moved''\<rparr>, w\<lparr>disk := moved_disk\<rparr>)
            | Inl e \<Rightarrow>
                (\<lparr>source = src, dest = destination, action = ''error: '' @ str_error e\<rparr>, w)))"

fun move_loop ::
  "path \<Rightarrow> bool \<Rightarrow> callback \<Rightarrow> nat \<Rightarrow> path list \<Rightarrow> nat \<Rightarrow> world \<Rightarrow> outcome list \<times> world"
where
  "move_loop destination dry_run cb total' [] completed w = ([], w)"
| "move_loop destination dry_run cb total' (src # rest) completed w =
     (let (r, w1) = move_one destination dry_run src w;
          w2 = notify cb (completed + 1) total' w1;
          (rs, w3) = move_loop destination dry_run cb total' rest (completed + 1) w2
      in (r # rs, w3))"

text \<open>
  \<^verbatim>\<open>move_files\<close>.  The result pairs the world after the call with either the exception
  that leaves the call or the returned list.
\<close>

definition move_files ::
  "world \<Rightarrow> path list \<Rightarrow> path \<Rightarrow> bool \<Rightarrow> callback \<Rightarrow> world \<times> (os_error + outcome list)"
where
  "move_files w files destination dry_run progress_callback =
     (case mkdir_parents (disk w) destination of
        Inl e \<Rightarrow> (w, Inl e)
      | Inr made \<Rightarrow>
          (let (results, w') =
                 move_loop destination dry_run progress_callback (length files) files 0
                   (w\<lparr>disk := made\<rparr>)
           in (w', Inr results)))"

text \<open>
  \<^verbatim>\<open>save_undo_record\<close>: an exception of the write is logged and swallowed, so the
  function returns in every case, with the file written, untouched or torn.
\<close>

definition save_undo_record :: "world \<Rightarrow> batch \<Rightarrow> world" where
  "save_undo_record w record =
     (case write_fault w of
        None \<Rightarrow> w\<lparr>undo_file := Stored record\<rparr>
      | Some OpenFails \<Rightarrow> w
      | Some DumpFails \<Rightarrow> w\<lparr>undo_file := Torn\<rparr>)"

text \<open>
  \<^verbatim>\<open>load_undo_record\<close>: \<^verbatim>\<open>None\<close> when the file is absent, and also when opening or
  parsing it raises.
\<close>

definition load_undo_record :: "world \<Rightarrow> batch option" where
  "load_undo_record w =
     (case undo_file w of
        Absent \<Rightarrow> None
      | Torn \<Rightarrow> None
      | Stored record \<Rightarrow> if read_fails w then None else Some record)"

text \<open>The body of the \<^verbatim>\<open>for op in reversed(ops)\<close> loop of \<^verbatim>\<open>undo_last\<close>.\<close>

definition undo_one :: "outcome \<Rightarrow> world \<Rightarrow> outcome \<times> world" where
  "undo_one op w =
     (let src = dest op; dst = source op
      in if \<not> path_exists (disk w) src
         then (\<lparr>source = src, dest = dst, action = ''skipped_not_found''\<rparr>, w)
         else
           (let final_dest = unique_dest (disk w) (parent dst) (name dst)
            in case shutil_move (disk w) src final_dest of
                 Inr moved_disk \<Rightarrow>
                   (\<lparr>source = src, dest = final_dest, action = ''restored''\<rparr>,
                    w\<lparr>disk := moved_disk\<rparr>)
               | Inl e \<Rightarrow>
                   (\<lparr>source = src, dest = dst, action = ''error: '' @ str_error e\<rparr>, w)))"

fun undo_loop ::
  "callback \<Rightarrow> nat \<Rightarrow> outcome list \<Rightarrow> nat \<Rightarrow> world \<Rightarrow> outcome list \<times> world"
where
  "undo_loop cb total' [] completed w = ([], w)"
| "undo_loop cb total' (op # rest) completed w =
     (let (r, w1) = undo_one op w;
          w2 = notify cb (completed + 1) total' w1;
          (rs, w3) = undo_loop cb total' rest (completed + 1) w2
      in (r # rs, w3))"

text \<open>
  \<^verbatim>\<open>Path(UNDO_FILE).unlink(missing_ok=True)\<close> inside its \<^verbatim>\<open>try\<close>: when the call
  raises, the exception is logged and the file stays.
\<close>

definition unlink_undo_file :: "world \<Rightarrow> world" where
  "unlink_undo_file w = (if unlink_fails w then w else w\<lparr>undo_file := Absent\<rparr>)"

datatype undo_result = UndoFailed string | UndoOk "outcome list"

definition undo_last :: "world \<Rightarrow> callback \<Rightarrow> world \<times> undo_result" where
  "undo_last w progress_callback =
     (case load_undo_record w of
        None \<Rightarrow> (w, UndoFailed ''Nenhum registro de undo encontrado.'')
      | Some record \<Rightarrow>
          (let ops = operations record;
               (results, w') = undo_loop progress_callback (length ops) (rev ops) 0 w
           in (unlink_undo_file w', UndoOk results)))"

section \<open>Facts about the loops\<close>

lemma move_one_source: "source (fst (move_one destination dry_run src w)) = src"
  by (simp add: move_one_def Let_def split: sum.split)

lemma move_loop_sources:
  "map source (fst (move_loop destination dry_run cb total' files completed w)) = files"
proof (induction files arbitrary: completed w)
  case Nil
  show ?case by simp
next
  case (Cons src rest)
  obtain r w1 where one: "move_one destination dry_run src w = (r, w1)"
    by (cases "move_one destination dry_run src w")
  obtain rs w3 where rest:
    "move_loop destination dry_run cb total' rest (completed + 1)
       (notify cb (completed + 1) total' w1) = (rs, w3)"
    by (cases "move_loop destination dry_run cb total' rest (completed + 1)
       (notify cb (completed + 1) total' w1)")
  from Cons.IH [of "completed + 1" "notify cb (completed + 1) total' w1"] rest
  have "map source rs = rest" by simp
  moreover from move_one_source [of destination dry_run src w] one have "source r = src" by simp
  ultimately show ?case using one rest by simp
qed

lemma move_loop_append:
  "move_loop destination dry_run cb total' (xs @ ys) completed w =
     (let (r1, w1) = move_loop destination dry_run cb total' xs completed w;
          (r2, w2) = move_loop destination dry_run cb total' ys (completed + length xs) w1
      in (r1 @ r2, w2))"
proof (induction xs arbitrary: completed w)
  case Nil
  show ?case by simp
next
  case (Cons x xs)
  show ?case
    by (simp add: Cons.IH Let_def split: prod.split)
qed

lemma notify_disk: "disk (notify cb c t w) = disk w"
  by (simp add: notify_def split: option.split)

section \<open>Properties of the move executor\<close>

text \<open>
  Claim C9.  A real (not dry-run) call whose destination could be created returns a
  list with exactly one entry per input file, in input order.  When the move of a file
  raises, in the world the files before it have left behind, the call goes on as if
  nothing had happened to that file: its result list is the list of the files before,
  then the error entry for the file (the destination and the message of the
  exception), then what the loop returns for the files after it when started in that
  same world, in which only the progress callback has received its call for the failed
  file; and the world the call leaves is the one that run over the files after it
  leaves.
\<close>

theorem move_files_error_does_not_abort:
  assumes "mkdir_parents (disk w) destination = Inr made"
  shows "\<exists>results w'.
           move_files w files destination False cb = (w', Inr results)
         \<and> length results = length files
         \<and> map source results = files
         \<and> (\<forall>xs src ys e.
               files = xs @ src # ys \<longrightarrow>
               (let w1 = snd (move_loop destination False cb (length files) xs 0
                                (w\<lparr>disk := made\<rparr>))
                in shutil_move (disk w1) src (unique_dest (disk w1) destination (name src)) = Inl e
                   \<longrightarrow> results ! length xs =
                         \<lparr>source = src, dest = destination,
                          action = ''error: '' @ str_error e\<rparr>))
         \<and> (\<forall>xs src ys e.
               files = xs @ src # ys \<longrightarrow>
               (let (before, w1) = move_loop destination False cb (length files) xs 0
                                      (w\<lparr>disk := made\<rparr>)
                in shutil_move (disk w1) src (unique_dest (disk w1) destination (name src)) = Inl e
                   \<longrightarrow>
                   (let (after, w2) =
                          move_loop destination False cb (length files) ys (length xs + 1)
                            (notify cb (length xs + 1) (length files) w1)
                    in results =
                         before
                         @ \<lparr>source = src, dest = destination,
                             action = ''error: '' @ str_error e\<rparr>
                         # after
                       \<and> w' = w2)))"
proof -
  let ?w0 = "w\<lparr>disk := made\<rparr>"
  let ?n = "length files"
  obtain results w' where loop: "move_loop destination False cb ?n files 0 ?w0 = (results, w')"
    by (cases "move_loop destination False cb ?n files 0 ?w0")
  have call: "move_files w files destination False cb = (w', Inr results)"
    using assms loop by (simp add: move_files_def)
  have srcs: "map source results = files"
    using move_loop_sources [of destination False cb ?n files 0 ?w0] loop by simp
  then have len: "length results = length files"
    by (metis length_map)
  have cont: "results = r1 @ \<lparr>source = src, dest = destination, action = ''error: '' @ str_error e\<rparr> # r2
      \<and> w' = w2"
    if split: "files = xs @ src # ys"
      and pre: "move_loop destination False cb ?n xs 0 ?w0 = (r1, w1)"
      and fails: "shutil_move (disk w1) src (unique_dest (disk w1) destination (name src)) = Inl e"
      and post: "move_loop destination False cb ?n ys (length xs + 1)
                   (notify cb (length xs + 1) ?n w1) = (r2, w2)"
    for xs src ys e r1 w1 r2 w2
  proof -
    from fails have one: "move_one destination False src w1 =
        (\<lparr>source = src, dest = destination, action = ''error: '' @ str_error e\<rparr>, w1)"
      by (simp add: move_one_def)
    from one post have "move_loop destination False cb ?n (src # ys) (length xs) w1 =
        (\<lparr>source = src, dest = destination, action = ''error: '' @ str_error e\<rparr> # r2, w2)"
      by simp
    with loop split pre show ?thesis
      using move_loop_append [of destination False cb ?n xs "src # ys" 0 ?w0] by simp
  qed
  have err: "results ! length xs = \<lparr>source = src, dest = destination, action = ''error: '' @ str_error e\<rparr>"
    if split: "files = xs @ src # ys"
      and fails: "shutil_move (disk (snd (move_loop destination False cb ?n xs 0 ?w0))) src
          (unique_dest (disk (snd (move_loop destination False cb ?n xs 0 ?w0))) destination (name src)) = Inl e"
    for xs src ys e
  proof -
    obtain r1 w1 where pre: "move_loop destination False cb ?n xs 0 ?w0 = (r1, w1)"
      by (cases "move_loop destination False cb ?n xs 0 ?w0")
    obtain r2 w2 where post: "move_loop destination False cb ?n ys (length xs + 1)
                   (notify cb (length xs + 1) ?n w1) = (r2, w2)"
      by (cases "move_loop destination False cb ?n ys (length xs + 1)
                   (notify cb (length xs + 1) ?n w1)")
    have l1: "length r1 = length xs"
      using move_loop_sources [of destination False cb ?n xs 0 ?w0] pre
      by (metis fst_conv length_map)
    from fails pre have "shutil_move (disk w1) src (unique_dest (disk w1) destination (name src)) = Inl e"
      by simp
    from cont [OF split pre this post] l1 show ?thesis
      by (simp add: nth_append)
  qed
  have cont': "let (before, w1) = move_loop destination False cb ?n xs 0 ?w0
       in shutil_move (disk w1) src (unique_dest (disk w1) destination (name src)) = Inl e
          \<longrightarrow>
          (let (after, w2) =
                 move_loop destination False cb ?n ys (length xs + 1)
                   (notify cb (length xs + 1) ?n w1)
           in results =
                before
                @ \<lparr>source = src, dest = destination, action = ''error: '' @ str_error e\<rparr>
                # after
              \<and> w' = w2)"
    if split: "files = xs @ src # ys" for xs src ys e
  proof -
    obtain r1 w1 where pre: "move_loop destination False cb ?n xs 0 ?w0 = (r1, w1)"
      by (cases "move_loop destination False cb ?n xs 0 ?w0")
    obtain r2 w2 where post: "move_loop destination False cb ?n ys (length xs + 1)
                   (notify cb (length xs + 1) ?n w1) = (r2, w2)"
      by (cases "move_loop destination False cb ?n ys (length xs + 1)
                   (notify cb (length xs + 1) ?n w1)")
    show ?thesis
      unfolding pre post Let_def prod.case
      using cont [OF split pre _ post] by blast
  qed
  from err have err': "\<forall>xs src ys e.
               files = xs @ src # ys \<longrightarrow>
               (let w1 = snd (move_loop destination False cb ?n xs 0 ?w0)
                in shutil_move (disk w1) src (unique_dest (disk w1) destination (name src)) = Inl e
                   \<longrightarrow> results ! length xs =
                         \<lparr>source = src, dest = destination,
                          action = ''error: '' @ str_error e\<rparr>)"
    by (simp add: Let_def)
  from cont' have cont'': "\<forall>xs src ys e.
               files = xs @ src # ys \<longrightarrow>
               (let (before, w1) = move_loop destination False cb ?n xs 0 ?w0
                in shutil_move (disk w1) src (unique_dest (disk w1) destination (name src)) = Inl e
                   \<longrightarrow>
                   (let (after, w2) =
                          move_loop destination False cb ?n ys (length xs + 1)
                            (notify cb (length xs + 1) ?n w1)
                    in results =
                         before
                         @ \<lparr>source = src, dest = destination,
                             action = ''error: '' @ str_error e\<rparr>
                         # after
                       \<and> w' = w2))"
    by blast
  from call len srcs err' cont'' show ?thesis
    by (intro exI [of _ results] exI [of _ w'] conjI)
qed

text \<open>A small tree for the examples: two files in \<^verbatim>\<open>/in\<close>, no \<^verbatim>\<open>/out\<close> yet.\<close>

definition inbox_disk :: filesystem where
  "inbox_disk =
     fmupd [''in'', ''c.txt''] (File ''gamma'' None)
       (fmupd [''in'', ''a.txt''] (File ''alpha'' None)
         (fmupd [''in''] Dir (fmupd [] Dir fmempty)))"

definition inbox_world :: world where
  "inbox_world = \<lparr>disk = inbox_disk, undo_file = Absent, progress = [],
      write_fault = None, read_fails = False, unlink_fails = False\<rparr>"

lemmas run_simps = move_files_def move_one_def unique_dest_def path_exists_def joinpath_def
  probe.simps candidate_def stem_def suffix_def name_def stem_of_def suffix_of_def
  str_nat.simps digit_char_def mkdir_parents_def is_file_def is_dir_def shutil_move_def
  parent_def notify_def str_path_def quoted_def undo_last_def undo_one_def load_undo_record_def
  save_undo_record_def unlink_undo_file_def fmlookup_rename_tree Let_def



theorem move_files_error_does_not_abort_witness:
  "mkdir_parents (disk inbox_world) [''out''] = Inr (fmupd [''out''] Dir inbox_disk)
   \<and> (\<exists>results w'.
         move_files inbox_world [[''in'', ''a.txt''], [''in'', ''b.txt''], [''in'', ''c.txt'']]
           [''out''] False (Some False) = (w', Inr results)
       \<and> length results = 3
       \<and> map source results = [[''in'', ''a.txt''], [''in'', ''b.txt''], [''in'', ''c.txt'']]
       \<and> results =
           [\<lparr>source = [''in'', ''a.txt''], dest = [''out'', ''a.txt''], action = ''moved''\<rparr>,
            \<lparr>source = [''in'', ''b.txt''], dest = [''out''],
             action = ''error: '' @ str_error (FileNotFoundError [''in'', ''b.txt''])\<rparr>,
            \<lparr>source = [''in'', ''c.txt''], dest = [''out'', ''c.txt''], action = ''moved''\<rparr>]
       \<and> fmlookup (disk w') [''out'', ''c.txt''] = Some (File ''gamma'' None)
       \<and> fmlookup (disk w') [''in'', ''c.txt''] = None
       \<and> progress w' = [(1, 3), (2, 3), (3, 3)])"
proof -
  let ?files = "[[''in'', ''a.txt''], [''in'', ''b.txt''], [''in'', ''c.txt'']]"
  let ?w0 = "inbox_world\<lparr>disk := fmupd [''out''] Dir inbox_disk\<rparr>"
  let ?pre = "move_loop [''out''] False (Some False) (length ?files) [[''in'', ''a.txt'']] 0 ?w0"
  let ?post = "move_loop [''out''] False (Some False) (length ?files) [[''in'', ''c.txt'']]
                 (length [[''in'', ''a.txt'']] + 1)
                 (notify (Some False) (length [[''in'', ''a.txt'']] + 1) (length ?files) (snd ?pre))"
  let ?err = "\<lparr>source = [''in'', ''b.txt''], dest = [''out''],
               action = ''error: '' @ str_error (FileNotFoundError [''in'', ''b.txt''])\<rparr>"
  have made: "mkdir_parents (disk inbox_world) [''out''] = Inr (fmupd [''out''] Dir inbox_disk)"
    by (simp add: inbox_world_def inbox_disk_def run_simps)
  have fails:
    "shutil_move (disk (snd ?pre)) [''in'', ''b.txt'']
       (unique_dest (disk (snd ?pre)) [''out''] (name [''in'', ''b.txt'']))
     = Inl (FileNotFoundError [''in'', ''b.txt''])"
    by (simp add: inbox_world_def inbox_disk_def run_simps)
  have before: "fst ?pre =
      [\<lparr>source = [''in'', ''a.txt''], dest = [''out'', ''a.txt''], action = ''moved''\<rparr>]"
    by (simp add: inbox_world_def inbox_disk_def run_simps)
  have after: "fst ?post =
      [\<lparr>source = [''in'', ''c.txt''], dest = [''out'', ''c.txt''], action = ''moved''\<rparr>]"
    by (simp add: inbox_world_def inbox_disk_def run_simps)
  have tree: "fmlookup (disk (snd ?post)) [''out'', ''c.txt''] = Some (File ''gamma'' None)"
    "fmlookup (disk (snd ?post)) [''in'', ''c.txt''] = None"
    by (simp_all add: inbox_world_def inbox_disk_def run_simps)
  have calls: "progress (snd ?post) = [(1, 3), (2, 3), (3, 3)]"
    by (simp add: inbox_world_def inbox_disk_def run_simps)
  have split: "?files = [[''in'', ''a.txt'']] @ [''in'', ''b.txt''] # [[''in'', ''c.txt'']]"
    by simp
  from move_files_error_does_not_abort [OF made, of ?files "Some False"]
  obtain results where "\<exists>w'.
      move_files inbox_world ?files [''out''] False (Some False) = (w', Inr results)
    \<and> length results = length ?files
    \<and> map source results = ?files
    \<and> (\<forall>xs src ys e.
       ?files = xs @ src # ys \<longrightarrow>
       (let w1 = snd (move_loop [''out''] False (Some False) (length ?files) xs 0 ?w0)
        in shutil_move (disk w1) src (unique_dest (disk w1) [''out''] (name src)) = Inl e
           \<longrightarrow> results ! length xs =
                 \<lparr>source = src, dest = [''out''], action = ''error: '' @ str_error e\<rparr>))
    \<and> (\<forall>xs src ys e.
       ?files = xs @ src # ys \<longrightarrow>
       (let (before, w1) = move_loop [''out''] False (Some False) (length ?files) xs 0 ?w0
        in shutil_move (disk w1) src (unique_dest (disk w1) [''out''] (name src)) = Inl e
           \<longrightarrow>
           (let (after, w2) =
                  move_loop [''out''] False (Some False) (length ?files) ys (length xs + 1)
                    (notify (Some False) (length xs + 1) (length ?files) w1)
            in results =
                 before
                 @ \<lparr>source = src, dest = [''out''], action = ''error: '' @ str_error e\<rparr>
                 # after
               \<and> w' = w2)))" ..
  then obtain w' where r:
      "move_files inbox_world ?files [''out''] False (Some False) = (w', Inr results)"
      "length results = length ?files"
      "map source results = ?files"
      and cont: "\<forall>xs src ys e.
       ?files = xs @ src # ys \<longrightarrow>
       (let (before, w1) = move_loop [''out''] False (Some False) (length ?files) xs 0 ?w0
        in shutil_move (disk w1) src (unique_dest (disk w1) [''out''] (name src)) = Inl e
           \<longrightarrow>
           (let (after, w2) =
                  move_loop [''out''] False (Some False) (length ?files) ys (length xs + 1)
                    (notify (Some False) (length xs + 1) (length ?files) w1)
            in results =
                 before
                 @ \<lparr>source = src, dest = [''out''], action = ''error: '' @ str_error e\<rparr>
                 # after
               \<and> w' = w2))"
    by (elim exE conjE)
  from cont [THEN spec, THEN spec, THEN spec, THEN spec,
      of "[[''in'', ''a.txt'']]" "[''in'', ''b.txt'']" "[[''in'', ''c.txt'']]"
         "FileNotFoundError [''in'', ''b.txt'']"]
  have "?files = [[''in'', ''a.txt'']] @ [''in'', ''b.txt''] # [[''in'', ''c.txt'']] \<longrightarrow>
       (shutil_move (disk (snd ?pre)) [''in'', ''b.txt'']
            (unique_dest (disk (snd ?pre)) [''out''] (name [''in'', ''b.txt'']))
          = Inl (FileNotFoundError [''in'', ''b.txt''])
        \<longrightarrow> results = fst ?pre @ ?err # fst ?post \<and> w' = snd ?post)"
    unfolding Let_def case_prod_beta .
  with split fails have both: "results = fst ?pre @ ?err # fst ?post \<and> w' = snd ?post"
    by (elim impE)
  from both have res: "results = fst ?pre @ ?err # fst ?post" by (rule conjunct1)
  from both have fin: "w' = snd ?post" by (rule conjunct2)
  from res have listed: "results =
           [\<lparr>source = [''in'', ''a.txt''], dest = [''out'', ''a.txt''], action = ''moved''\<rparr>,
            ?err,
            \<lparr>source = [''in'', ''c.txt''], dest = [''out'', ''c.txt''], action = ''moved''\<rparr>]"
    by (simp only: before after append.simps)
  from r(2) have three: "length results = 3" by simp
  from tree(1) have there: "fmlookup (disk w') [''out'', ''c.txt''] = Some (File ''gamma'' None)"
    unfolding fin .
  from tree(2) have gone: "fmlookup (disk w') [''in'', ''c.txt''] = None"
    unfolding fin .
  from calls have told: "progress w' = [(1, 3), (2, 3), (3, 3)]"
    unfolding fin .
  from made r(1) three r(3) listed there gone told show ?thesis
    by (intro conjI exI [of _ results] exI [of _ w'])
qed

text \<open>
  Claim C10.  When creating the destination directory fails, \<open>move_files\<close> leaves
  with that exception and the world is the one it was called in: no file has been
  touched, the progress callback has received no call, and no result list exists.
\<close>

theorem move_files_mkdir_failure:
  assumes "mkdir_parents (disk w) destination = Inl e"
  shows "move_files w files destination dry_run cb = (w, Inl e)"
  using assms by (simp add: move_files_def)

text \<open>A tree in which \<^verbatim>\<open>/out\<close> is a regular file, so that it cannot be made a directory.\<close>

definition blocked_world :: world where
  "blocked_world =
     \<lparr>disk = fmupd [''out''] (File ''not a directory'' None) inbox_disk,
      undo_file = Absent, progress = [],
      write_fault = None, read_fails = False, unlink_fails = False\<rparr>"

theorem move_files_mkdir_failure_witness:
  "mkdir_parents (disk blocked_world) [''out''] = Inl (FileExistsError [''out''])
   \<and> move_files blocked_world [[''in'', ''a.txt'']] [''out''] False (Some False)
       = (blocked_world, Inl (FileExistsError [''out'']))"
proof -
  have h: "mkdir_parents (disk blocked_world) [''out''] = Inl (FileExistsError [''out''])"
    by (simp add: blocked_world_def inbox_disk_def run_simps)
  from move_files_mkdir_failure [OF h, of "[[''in'', ''a.txt'']]" False "Some False"] h
  show ?thesis by (intro conjI)
qed

section \<open>Properties of undo\<close>

lemma undo_one_source: "source (fst (undo_one op w)) = dest op"
  by (simp add: undo_one_def Let_def split: sum.split)

lemma undo_loop_sources:
  "map source (fst (undo_loop cb total' ops completed w)) = map dest ops"
proof (induction ops arbitrary: completed w)
  case Nil
  show ?case by simp
next
  case (Cons op rest)
  obtain r w1 where one: "undo_one op w = (r, w1)"
    by (cases "undo_one op w")
  obtain rs w3 where rest:
    "undo_loop cb total' rest (completed + 1) (notify cb (completed + 1) total' w1) = (rs, w3)"
    by (cases "undo_loop cb total' rest (completed + 1) (notify cb (completed + 1) total' w1)")
  from Cons.IH [of "completed + 1" "notify cb (completed + 1) total' w1"] rest
  have "map source rs = map dest rest" by simp
  moreover from undo_one_source [of op w] one have "source r = dest op" by simp
  ultimately show ?case using one rest by simp
qed

lemma undo_one_disk_cong:
  "disk w = disk v \<Longrightarrow> disk (snd (undo_one op w)) = disk (snd (undo_one op v))"
  by (simp add: undo_one_def Let_def split: sum.split)

lemma undo_loop_disk:
  "disk w = disk v \<Longrightarrow>
   disk (snd (undo_loop cb total' ops completed w)) =
     disk (fold (\<lambda>op u. snd (undo_one op u)) ops v)"
proof (induction ops arbitrary: completed w v)
  case Nil
  then show ?case by simp
next
  case (Cons op rest)
  obtain r w1 where one: "undo_one op w = (r, w1)"
    by (cases "undo_one op w")
  from undo_one_disk_cong [OF Cons.prems, of op] one
  have "disk (notify cb (completed + 1) total' w1) = disk (snd (undo_one op v))"
    by (simp add: notify_disk)
  from Cons.IH [OF this, of "completed + 1"] one show ?case
    by (cases "undo_loop cb total' rest (completed + 1) (notify cb (completed + 1) total' w1)")
       simp
qed

lemma notify_ledger:
  "undo_file (notify cb c t w) = undo_file w"
  "unlink_fails (notify cb c t w) = unlink_fails w"
  "write_fault (notify cb c t w) = write_fault w"
  by (simp_all add: notify_def split: option.split)

lemma undo_one_ledger:
  "undo_file (snd (undo_one op w)) = undo_file w"
  "unlink_fails (snd (undo_one op w)) = unlink_fails w"
  by (simp_all add: undo_one_def Let_def split: sum.split)

lemma undo_loop_ledger:
  "undo_file (snd (undo_loop cb total' ops completed w)) = undo_file w
   \<and> unlink_fails (snd (undo_loop cb total' ops completed w)) = unlink_fails w"
proof (induction ops arbitrary: completed w)
  case Nil
  show ?case by simp
next
  case (Cons op rest)
  obtain r w1 where one: "undo_one op w = (r, w1)"
    by (cases "undo_one op w")
  from undo_one_ledger [of op w] one
  have "undo_file w1 = undo_file w" "unlink_fails w1 = unlink_fails w" by simp_all
  with Cons.IH [of "completed + 1" "notify cb (completed + 1) total' w1"] one show ?case
    by (cases "undo_loop cb total' rest (completed + 1) (notify cb (completed + 1) total' w1)")
       (simp add: notify_ledger)
qed

text \<open>
  Claim C8, as amended.  On a batch that \<open>load_undo_record\<close> returns, \<open>undo_last\<close>
  goes through the operations in reverse list order (the entries of its result list
  are those of the reversed batch, and the tree it leaves is the one obtained by
  undoing the operations one after the other from the last to the first) and returns
  ok; whatever the individual entries came to, it then tries to delete the ledger: the
  ledger is gone when \<^verbatim>\<open>unlink\<close> does not raise, and is what it was when it does.
\<close>

theorem undo_last_reverse_and_consume:
  assumes "load_undo_record w = Some record"
  shows "\<exists>results w'.
           undo_last w cb = (w', UndoOk results)
         \<and> undo_file w' = (if unlink_fails w then undo_file w else Absent)
         \<and> length results = length (operations record)
         \<and> map source results = map dest (rev (operations record))
         \<and> disk w' = disk (fold (\<lambda>op u. snd (undo_one op u)) (rev (operations record)) w)"
proof -
  let ?ops = "operations record"
  obtain results w1 where loop: "undo_loop cb (length ?ops) (rev ?ops) 0 w = (results, w1)"
    by (cases "undo_loop cb (length ?ops) (rev ?ops) 0 w")
  have call: "undo_last w cb = (unlink_undo_file w1, UndoOk results)"
    using assms loop by (simp add: undo_last_def)
  have kept: "undo_file w1 = undo_file w" "unlink_fails w1 = unlink_fails w"
    using undo_loop_ledger [of cb "length ?ops" "rev ?ops" 0 w] loop by simp_all
  then have gone: "undo_file (unlink_undo_file w1) = (if unlink_fails w then undo_file w else Absent)"
    by (simp add: unlink_undo_file_def)
  have srcs: "map source results = map dest (rev ?ops)"
    using undo_loop_sources [of cb "length ?ops" "rev ?ops" 0 w] loop by simp
  then have "length (map source results) = length (map dest (rev ?ops))" by simp
  then have len: "length results = length ?ops" by simp
  have dsk: "disk (unlink_undo_file w1) = disk (fold (\<lambda>op u. snd (undo_one op u)) (rev ?ops) w)"
    using undo_loop_disk [OF refl, of cb "length ?ops" "rev ?ops" 0 w] loop
    by (simp add: unlink_undo_file_def)
  from call gone len srcs dsk show ?thesis
    by (intro exI [of _ results] exI [of _ "unlink_undo_file w1"] conjI)
qed

text \<open>
  The world after a batch of three moves into \<^verbatim>\<open>/out\<close>, the second of which has
  since been taken away by hand.
\<close>

definition three_moves :: batch where
  "three_moves =
        \<lparr>timestamp = ''2024-01-10T12:00:00'',
         operations =
           [\<lparr>source = [''in'', ''a.txt''], dest = [''out'', ''a.txt''], action = ''moved''\<rparr>,
            \<lparr>source = [''in'', ''b.txt''], dest = [''out'', ''b.txt''], action = ''moved''\<rparr>,
            \<lparr>source = [''in'', ''c.txt''], dest = [''out'', ''c.txt''], action = ''moved''\<rparr>]\<rparr>"

definition after_batch :: world where
  "after_batch =
     \<lparr>disk =
        fmupd [''out'', ''c.txt''] (File ''gamma'' None)
          (fmupd [''out'', ''a.txt''] (File ''alpha'' None)
            (fmupd [''out''] Dir (fmupd [''in''] Dir (fmupd [] Dir fmempty)))),
      undo_file = Stored three_moves,
      progress = [], write_fault = None, read_fails = False, unlink_fails = False\<rparr>"

theorem undo_last_reverse_and_consume_witness:
  "load_undo_record after_batch = Some three_moves
   \<and> \<not> unlink_fails after_batch
   \<and> (\<exists>results w'.
         undo_last after_batch None = (w', UndoOk results)
       \<and> undo_file w' = Absent
       \<and> length results = 3
       \<and> map source results = [[''out'', ''c.txt''], [''out'', ''b.txt''], [''out'', ''a.txt'']])
   \<and> map action (case snd (undo_last after_batch None) of UndoOk rs \<Rightarrow> rs | UndoFailed m \<Rightarrow> [])
       = [''restored'', ''skipped_not_found'', ''restored'']"
proof -
  let ?batch = "three_moves"
  have h: "load_undo_record after_batch = Some ?batch"
    by (simp add: load_undo_record_def after_batch_def)
  have free: "\<not> unlink_fails after_batch"
    by (simp add: after_batch_def)
  have ops: "operations ?batch =
           [\<lparr>source = [''in'', ''a.txt''], dest = [''out'', ''a.txt''], action = ''moved''\<rparr>,
            \<lparr>source = [''in'', ''b.txt''], dest = [''out'', ''b.txt''], action = ''moved''\<rparr>,
            \<lparr>source = [''in'', ''c.txt''], dest = [''out'', ''c.txt''], action = ''moved''\<rparr>]"
    by (simp add: three_moves_def)
  have acts: "map action (case snd (undo_last after_batch None) of UndoOk rs \<Rightarrow> rs | UndoFailed m \<Rightarrow> [])
       = [''restored'', ''skipped_not_found'', ''restored'']"
    by (simp add: after_batch_def three_moves_def run_simps)
  from undo_last_reverse_and_consume [OF h, of None]
  obtain results where "\<exists>w'. undo_last after_batch None = (w', UndoOk results)
         \<and> undo_file w' = (if unlink_fails after_batch then undo_file after_batch else Absent)
         \<and> length results = length (operations ?batch)
         \<and> map source results = map dest (rev (operations ?batch))
         \<and> disk w' = disk (fold (\<lambda>op u. snd (undo_one op u)) (rev (operations ?batch)) after_batch)" ..
  then obtain w' where r: "undo_last after_batch None = (w', UndoOk results)"
         "undo_file w' = (if unlink_fails after_batch then undo_file after_batch else Absent)"
         "length results = length (operations ?batch)"
         "map source results = map dest (rev (operations ?batch))"
    by (elim exE conjE)
  from r(2) free have g: "undo_file w' = Absent" by simp
  from r(3) ops have l: "length results = 3" by simp
  from r(4) ops have m: "map source results = [[''out'', ''c.txt''], [''out'', ''b.txt''], [''out'', ''a.txt'']]"
    by simp
  from h free r(1) g l m acts show ?thesis
    by (intro conjI exI [of _ results] exI [of _ w'])
qed

text \<open>
  Claim C8 as stated fails where \<^verbatim>\<open>unlink\<close> raises (the directory of
  \<^verbatim>\<open>UNDO_FILE\<close> is read-only, say): \<open>undo_last\<close> swallows the exception and returns
  ok, and the batch is still in the ledger, ready to be undone once more.
\<close>

definition after_batch_locked :: world where
  "after_batch_locked = after_batch\<lparr>unlink_fails := True\<rparr>"

theorem undo_last_leaves_ledger_when_unlink_fails:
  "load_undo_record after_batch_locked = Some three_moves
   \<and> map action (case snd (undo_last after_batch_locked None) of
                    UndoOk rs \<Rightarrow> rs | UndoFailed m \<Rightarrow> [])
       = [''restored'', ''skipped_not_found'', ''restored'']
   \<and> undo_file (fst (undo_last after_batch_locked None)) = Stored three_moves"
  by (simp add: after_batch_locked_def after_batch_def three_moves_def run_simps)

section \<open>Dry runs\<close>

text \<open>
  Claim C2, at an input where it fails.  \<open>move_files\<close> creates the destination before
  it looks at \<open>dry_run\<close>: a dry run towards \<^verbatim>\<open>/out\<close>, which does not exist, leaves
  the directory \<^verbatim>\<open>/out\<close> behind, while its result list only says \<^verbatim>\<open>would_move\<close>.
\<close>

theorem dry_run_creates_destination:
  "fmlookup (disk inbox_world) [''out''] = None
   \<and> fmlookup (disk (fst (move_files inbox_world [[''in'', ''a.txt'']] [''out''] True None)))
       [''out''] = Some Dir
   \<and> snd (move_files inbox_world [[''in'', ''a.txt'']] [''out''] True None)
       = Inr [\<lparr>source = [''in'', ''a.txt''], dest = [''out'', ''a.txt''],
               action = ''would_move''\<rparr>]"
  by (simp add: inbox_world_def inbox_disk_def run_simps)

lemma unique_dest_fresh: "\<not> path_exists fs (unique_dest fs d f)"
proof (cases "path_exists fs (joinpath d f)")
  case False
  then show ?thesis by (simp add: unique_dest_def)
next
  case True
  with probe_least [of 1 fs d "stem (joinpath d f)" "suffix (joinpath d f)"] show ?thesis
    by (auto simp: unique_dest_def Let_def)
qed

lemma parent_candidate: "parent (candidate d base ext n) = d"
  by (simp add: candidate_def joinpath_def parent_def)

lemma parent_unique_dest:
  assumes "path_exists fs d"
  shows "parent (unique_dest fs d f) = d"
proof (cases "path_exists fs (joinpath d f)")
  case False
  with assms have "f \<noteq> []" by (auto simp: joinpath_def)
  with False show ?thesis by (simp add: unique_dest_def joinpath_def parent_def)
next
  case True
  with probe_least [of 1 fs d "stem (joinpath d f)" "suffix (joinpath d f)"] show ?thesis
    by (auto simp: unique_dest_def Let_def parent_candidate)
qed

lemma fold_mkdir_lookup:
  "fmlookup (fold (\<lambda>q m. if path_exists m q then m else fmupd q Dir m) qs fs) r =
     (if r \<in> set qs \<and> fmlookup fs r = None then Some Dir else fmlookup fs r)"
  by (induction qs arbitrary: fs) (auto simp: path_exists_def)

lemma mkdir_parents_lookup:
  assumes "mkdir_parents fs p = Inr made"
  shows "fmlookup made r =
           (if prefix r p \<and> fmlookup fs r = None then Some Dir else fmlookup fs r)"
proof -
  from assms have "made = fold (\<lambda>q m. if path_exists m q then m else fmupd q Dir m) (prefixes p) fs"
    by (simp add: mkdir_parents_def split: option.splits)
  then show ?thesis by (simp add: fold_mkdir_lookup set_prefixes_eq)
qed

lemma mkdir_parents_no_file:
  assumes "mkdir_parents fs p = Inr made" and "prefix q p"
  shows "\<not> is_file fs q"
proof -
  from assms(1) have "find (is_file fs) (prefixes p) = None"
    by (simp add: mkdir_parents_def split: option.splits)
  with assms(2) show ?thesis by (simp add: find_None_iff set_prefixes_eq)
qed

lemma mkdir_parents_is_dir:
  assumes "mkdir_parents fs p = Inr made" and "prefix q p"
  shows "is_dir made q"
proof -
  from mkdir_parents_no_file [OF assms] have "fmlookup fs q = None \<or> fmlookup fs q = Some Dir"
    by (auto simp: is_file_def split: option.splits node.splits)
  with assms(2) show ?thesis
    by (auto simp: is_dir_def mkdir_parents_lookup [OF assms(1)])
qed

lemma mkdir_parents_idem:
  assumes "mkdir_parents fs p = Inr made"
  shows "mkdir_parents made p = Inr made"
proof -
  have dirs: "\<forall>q\<in>set (prefixes p). is_dir made q"
    using mkdir_parents_is_dir [OF assms] by (simp add: set_prefixes_eq)
  then have "find (is_file made) (prefixes p) = None"
    by (auto simp: find_None_iff is_dir_def is_file_def)
  moreover have "fold (\<lambda>q m. if path_exists m q then m else fmupd q Dir m) qs made = made"
    if "\<forall>q\<in>set qs. is_dir made q" for qs
    using that by (induction qs) (auto simp: is_dir_def path_exists_def)
  ultimately show ?thesis using dirs by (simp add: mkdir_parents_def)
qed

lemma move_one_dry_run:
  "move_one d True src w =
     (\<lparr>outcome.source = src, dest = unique_dest (disk w) d (name src), action = ''would_move''\<rparr>, w)"
  by (simp add: move_one_def)

lemma dry_run_loop_disk:
  "disk (snd (move_loop d True cb total' files completed w)) = disk w"
proof (induction files arbitrary: completed w)
  case Nil
  show ?case by simp
next
  case (Cons src rest)
  from Cons.IH [of "completed + 1" "notify cb (completed + 1) total' w"] show ?case
    by (cases "move_loop d True cb total' rest (completed + 1) (notify cb (completed + 1) total' w)")
       (simp add: move_one_dry_run notify_disk)
qed

lemma dry_run_loop_results:
  "fst (move_loop d True cb total' files completed w) =
     map (\<lambda>src. \<lparr>outcome.source = src, dest = unique_dest (disk w) d (name src),
                  action = ''would_move''\<rparr>) files"
proof (induction files arbitrary: completed w)
  case Nil
  show ?case by simp
next
  case (Cons src rest)
  from Cons.IH [of "completed + 1" "notify cb (completed + 1) total' w"] show ?case
    by (cases "move_loop d True cb total' rest (completed + 1) (notify cb (completed + 1) total' w)")
       (simp add: move_one_dry_run notify_disk)
qed

text \<open>
  What does hold of a dry run whose destination can be created: the tree it leaves is
  the one \<^verbatim>\<open>mkdir\<close> made and no more, every entry says \<^verbatim>\<open>would_move\<close>, and a
  second dry run in the world the first one left returns the same list.
\<close>

lemma dry_run_only_creates_destination:
  assumes "mkdir_parents (disk w) d = Inr made"
  shows "disk (fst (move_files w files d True cb)) = made"
    and "\<exists>results. snd (move_files w files d True cb) = Inr results
           \<and> (\<forall>r\<in>set results. action r = ''would_move'')"
    and "snd (move_files (fst (move_files w files d True cb)) files d True cb)
           = snd (move_files w files d True cb)"
proof -
  let ?w0 = "w\<lparr>disk := made\<rparr>"
  obtain rs w1 where loop: "move_loop d True cb (length files) files 0 ?w0 = (rs, w1)"
    by (cases "move_loop d True cb (length files) files 0 ?w0")
  have call: "move_files w files d True cb = (w1, Inr rs)"
    using assms loop by (simp add: move_files_def)
  have d1: "disk w1 = made"
    using dry_run_loop_disk [of d cb "length files" files 0 ?w0] loop by simp
  have rs: "rs = map (\<lambda>src. \<lparr>outcome.source = src, dest = unique_dest made d (name src),
                  action = ''would_move''\<rparr>) files"
    using dry_run_loop_results [of d cb "length files" files 0 ?w0] loop by simp
  show "disk (fst (move_files w files d True cb)) = made"
    using call d1 by simp
  show "\<exists>results. snd (move_files w files d True cb) = Inr results
           \<and> (\<forall>r\<in>set results. action r = ''would_move'')"
    using call rs by auto
  let ?w2 = "w1\<lparr>disk := made\<rparr>"
  obtain rs' w3 where loop': "move_loop d True cb (length files) files 0 ?w2 = (rs', w3)"
    by (cases "move_loop d True cb (length files) files 0 ?w2")
  have "rs' = rs"
    using dry_run_loop_results [of d cb "length files" files 0 ?w2] loop' rs by simp
  moreover have "move_files w1 files d True cb = (w3, Inr rs')"
    using mkdir_parents_idem [OF assms] d1 loop' by (simp add: move_files_def)
  ultimately show "snd (move_files (fst (move_files w files d True cb)) files d True cb)
           = snd (move_files w files d True cb)"
    using call by simp
qed

section \<open>The matcher\<close>

text \<open>
  Two library functions are left open, and every definition that calls them takes them
  as arguments: \<open>lower\<close> stands for \<^verbatim>\<open>str.lower\<close> and \<open>strptime\<close> for
  \<^verbatim>\<open>datetime.strptime(_, "%Y-%m-%d")\<close>, which returns a time stamp or raises
  \<^verbatim>\<open>ValueError\<close>.
\<close>

text \<open>Python compares two \<^verbatim>\<open>datetime\<close> values field by field.\<close>

definition dt_key :: "datetime \<Rightarrow> nat list" where
  "dt_key t = [year t, month t, day t, hour t, minute t, second t, microsecond t]"

definition dt_less :: "datetime \<Rightarrow> datetime \<Rightarrow> bool" where
  "dt_less a b = (dt_key a < dt_key b)"

text \<open>\<^verbatim>\<open>_parse_date\<close>: \<^verbatim>\<open>None\<close> and the empty string give \<^verbatim>\<open>None\<close>.\<close>

definition parse_date ::
  "(string \<Rightarrow> os_error + datetime) \<Rightarrow> string option \<Rightarrow> os_error + datetime option"
where
  "parse_date strptime date_str =
     (case date_str of
        None \<Rightarrow> Inr None
      | Some s \<Rightarrow>
          if s = [] then Inr None
          else (case strptime s of Inl e \<Rightarrow> Inl e | Inr t \<Rightarrow> Inr (Some t)))"

text \<open>
  \<^verbatim>\<open>source.iterdir()\<close>: the paths directly below the directory.  The order in which
  the system lists them is not specified; the model lists them sorted.
\<close>

definition iterdir :: "filesystem \<Rightarrow> path \<Rightarrow> path list" where
  "iterdir fs d = filter (\<lambda>p. p \<noteq> [] \<and> parent p = d) (sorted_list_of_fset (fmdom fs))"

text \<open>
  \<^verbatim>\<open>datetime.fromtimestamp(p.stat().st_mtime)\<close>, \<open>None\<close> when it raises: the entry is
  gone or its metadata cannot be read.  The program asks it only of entries that are
  not directories.
\<close>

definition read_mtime :: "filesystem \<Rightarrow> path \<Rightarrow> datetime option" where
  "read_mtime fs p =
     (case fmlookup fs p of
        Some (File c t) \<Rightarrow> t
      | Some Dir \<Rightarrow> None
      | None \<Rightarrow> None)"

text \<open>The inner loop over the keywords, with its \<^verbatim>\<open>break\<close>.\<close>

fun keyword_hit :: "string list \<Rightarrow> string \<Rightarrow> bool" where
  "keyword_hit [] nm = False"
| "keyword_hit (kw # kws) nm = (if kw \<noteq> [] \<and> sublist kw nm then True else keyword_hit kws nm)"

text \<open>The loop over the directory entries, with its three \<^verbatim>\<open>continue\<close>s.\<close>

fun scan ::
  "(string \<Rightarrow> string) \<Rightarrow> filesystem \<Rightarrow> datetime option \<Rightarrow> datetime option \<Rightarrow> string list
     \<Rightarrow> path list \<Rightarrow> path list"
where
  "scan lower fs start end' kws [] = []"
| "scan lower fs start end' kws (p # ps) =
     (if is_dir fs p then scan lower fs start end' kws ps
      else
        (case read_mtime fs p of
           None \<Rightarrow> scan lower fs start end' kws ps
         | Some mtime \<Rightarrow>
             if (case start of Some s \<Rightarrow> dt_less mtime s | None \<Rightarrow> False)
             then scan lower fs start end' kws ps
             else if (case end' of Some e \<Rightarrow> dt_less e mtime | None \<Rightarrow> False)
             then scan lower fs start end' kws ps
             else if keyword_hit kws (lower (name p)) then p # scan lower fs start end' kws ps
             else scan lower fs start end' kws ps))"

text \<open>The rule, with the keys the docstring of \<^verbatim>\<open>get_matched_files\<close> lists.\<close>

record org =
  source :: path
  "keywords" :: "string list"
  destination :: path
  date_filter_enabled :: bool
  start_date :: "string option"
  end_date :: "string option"

text \<open>
  The two bounds of the date window: the dates are parsed only when the filter is
  enabled, and the end is moved to 23:59:59 of its day.
\<close>

definition date_window ::
  "(string \<Rightarrow> os_error + datetime) \<Rightarrow> org \<Rightarrow> os_error + (datetime option \<times> datetime option)"
where
  "date_window strptime rule =
     (case (if date_filter_enabled rule then parse_date strptime (start_date rule) else Inr None) of
        Inl e \<Rightarrow> Inl e
      | Inr start \<Rightarrow>
          (case (if date_filter_enabled rule then parse_date strptime (end_date rule)
                 else Inr None) of
             Inl e \<Rightarrow> Inl e
           | Inr end0 \<Rightarrow>
               Inr (start,
                    map_option (\<lambda>e. e\<lparr>hour := 23, minute := 59, second := 59\<rparr>) end0)))"

definition get_matched_files ::
  "(string \<Rightarrow> string) \<Rightarrow> (string \<Rightarrow> os_error + datetime) \<Rightarrow> filesystem \<Rightarrow> org
     \<Rightarrow> os_error + path list"
where
  "get_matched_files lower strptime fs rule =
     (let kws = map lower (keywords rule)
      in if \<not> is_dir fs (org.source rule) then Inr []
         else
           (case date_window strptime rule of
              Inl e \<Rightarrow> Inl e
            | Inr (start, end') \<Rightarrow>
                Inr (scan lower fs start end' kws (iterdir fs (org.source rule)))))"

section \<open>Properties of the matcher\<close>

text \<open>An entry passes the date filter when neither bound excludes its time stamp.\<close>

definition passes_date_filter :: "datetime option \<Rightarrow> datetime option \<Rightarrow> datetime \<Rightarrow> bool" where
  "passes_date_filter start end' mtime =
     (\<not> (case start of Some s \<Rightarrow> dt_less mtime s | None \<Rightarrow> False)
      \<and> \<not> (case end' of Some e \<Rightarrow> dt_less e mtime | None \<Rightarrow> False))"

lemma keyword_hit_iff: "keyword_hit kws nm \<longleftrightarrow> (\<exists>kw\<in>set kws. kw \<noteq> [] \<and> sublist kw nm)"
  by (induction kws) auto

lemma keyword_hit_lowered:
  assumes "\<And>s. lower s = [] \<longleftrightarrow> s = []"
  shows "keyword_hit (map lower kws) nm \<longleftrightarrow> (\<exists>kw\<in>set kws. kw \<noteq> [] \<and> sublist (lower kw) nm)"
  by (simp add: keyword_hit_iff assms)

lemma scan_filter:
  "scan lower fs start end' kws ps =
     filter (\<lambda>p. \<not> is_dir fs p \<and>
                 (case read_mtime fs p of
                    None \<Rightarrow> False
                  | Some mtime \<Rightarrow> passes_date_filter start end' mtime
                                 \<and> keyword_hit kws (lower (name p)))) ps"
  by (induction ps) (auto simp: passes_date_filter_def split: option.splits)

lemma set_iterdir: "set (iterdir fs d) = {p. p \<in> fmdom' fs \<and> p \<noteq> [] \<and> parent p = d}"
  by (auto simp: iterdir_def fmdom'_alt_def)

text \<open>
  Claim C6.  Whatever \<^verbatim>\<open>str.lower\<close> does to letters, as long as it gives the empty
  string for the empty string only: for a rule whose source is a directory and whose
  dates parse, the call returns a list in which an entry of the source directory that
  is not a directory, has a readable modification time and passes the date filter
  occurs exactly when its lowercased name contains the lowercased form of one of the
  rule's non-empty keywords; and the list is empty when the rule has no keyword or only
  empty ones.
\<close>

theorem get_matched_files_keyword_iff:
  assumes "\<And>s. lower s = [] \<longleftrightarrow> s = []"
    and "is_dir fs (org.source rule)"
    and "date_window strptime rule = Inr (start, end')"
  shows "\<exists>matched.
           get_matched_files lower strptime fs rule = Inr matched
         \<and> (\<forall>p mtime.
               p \<in> set (iterdir fs (org.source rule)) \<and> \<not> is_dir fs p
               \<and> read_mtime fs p = Some mtime \<and> passes_date_filter start end' mtime
               \<longrightarrow> (p \<in> set matched \<longleftrightarrow>
                      (\<exists>kw\<in>set (keywords rule). kw \<noteq> [] \<and> sublist (lower kw) (lower (name p)))))
         \<and> ((\<forall>kw\<in>set (keywords rule). kw = []) \<longrightarrow> matched = [])"
proof -
  let ?kws = "map lower (keywords rule)"
  let ?matched = "scan lower fs start end' ?kws (iterdir fs (org.source rule))"
  note hit = keyword_hit_lowered [of lower, OF assms(1)]
  have call: "get_matched_files lower strptime fs rule = Inr ?matched"
    using assms(2,3) by (simp add: get_matched_files_def)
  have entry: "p \<in> set ?matched \<longleftrightarrow>
      (\<exists>kw\<in>set (keywords rule). kw \<noteq> [] \<and> sublist (lower kw) (lower (name p)))"
    if "p \<in> set (iterdir fs (org.source rule))" "\<not> is_dir fs p"
       "read_mtime fs p = Some mtime" "passes_date_filter start end' mtime"
    for p mtime
    using that by (simp add: scan_filter hit)
  have none: "?matched = []" if "\<forall>kw\<in>set (keywords rule). kw = []"
  proof -
    from that have "\<not> keyword_hit ?kws nm" for nm
      by (simp add: hit)
    then show ?thesis
      by (simp add: scan_filter split: option.split)
  qed
  from call entry none show ?thesis
    by (intro exI [of _ ?matched]) blast
qed

text \<open>
  Stand-ins for the two library functions in the examples, where they agree with the
  library: \<^verbatim>\<open>str.lower\<close> as it acts on strings whose only letters are the ASCII
  ones, and \<^verbatim>\<open>strptime\<close> on the strings the examples pass to it (three dates and
  one string that is no date).
\<close>

definition ascii_lower :: "string \<Rightarrow> string" where
  "ascii_lower s =
     map (\<lambda>c. case map_of (zip ''ABCDEFGHIJKLMNOPQRSTUVWXYZ'' ''abcdefghijklmnopqrstuvwxyz'') c of
                 Some l \<Rightarrow> l
               | None \<Rightarrow> c) s"

definition january_start :: datetime where
  "january_start = \<lparr>year = 2024, month = 1, day = 1,
                      hour = 0, minute = 0, second = 0, microsecond = 0\<rparr>"

definition january_tenth :: datetime where
  "january_tenth = \<lparr>year = 2024, month = 1, day = 10,
                      hour = 0, minute = 0, second = 0, microsecond = 0\<rparr>"

definition january_end :: datetime where
  "january_end = \<lparr>year = 2024, month = 1, day = 10,
                    hour = 23, minute = 59, second = 59, microsecond = 0\<rparr>"

definition strptime_sample :: "string \<Rightarrow> os_error + datetime" where
  "strptime_sample s =
     (if s = ''2024-01-01'' then Inr january_start
      else if s = ''2024-01-10'' then Inr january_tenth
      else if s = ''2030-01-01'' then Inr (january_start\<lparr>year := 2030\<rparr>)
      else Inl (ValueError (''time data '' @ s @ '' does not match format %Y-%m-%d'')))"

text \<open>
  The scenario of the specification: \<^verbatim>\<open>/in\<close> holds an invoice and a note, both
  modified in January 2024.
\<close>

definition mail_disk :: filesystem where
  "mail_disk =
     fmupd [''in'', ''note.txt'']
        (File ''n'' (Some \<lparr>year = 2024, month = 1, day = 5,
                            hour = 8, minute = 0, second = 0, microsecond = 0\<rparr>))
       (fmupd [''in'', ''Invoice_Jan.pdf'']
          (File ''i'' (Some \<lparr>year = 2024, month = 1, day = 10,
                              hour = 9, minute = 30, second = 0, microsecond = 0\<rparr>))
         (fmupd [''in''] Dir (fmupd [] Dir fmempty)))"

definition invoice_rule :: org where
  "invoice_rule =
     \<lparr>org.source = [''in''], keywords = [''INVOICE'', []], destination = [''out''],
      date_filter_enabled = True,
      start_date = Some ''2024-01-01'', end_date = Some ''2024-01-10''\<rparr>"

theorem get_matched_files_keyword_iff_witness:
  "(\<forall>s. ascii_lower s = [] \<longleftrightarrow> s = [])
   \<and> is_dir mail_disk (org.source invoice_rule)
   \<and> date_window strptime_sample invoice_rule = Inr (Some january_start, Some january_end)
   \<and> (\<exists>matched.
         get_matched_files ascii_lower strptime_sample mail_disk invoice_rule = Inr matched
       \<and> [''in'', ''Invoice_Jan.pdf''] \<in> set matched
       \<and> [''in'', ''note.txt''] \<notin> set matched)"
proof -
  let ?inv = "[''in'', ''Invoice_Jan.pdf'']" and ?memo = "[''in'', ''note.txt'']"
  let ?t_inv = "\<lparr>year = 2024, month = 1, day = 10,
                  hour = 9, minute = 30, second = 0, microsecond = 0\<rparr>"
  let ?t_note = "\<lparr>year = 2024, month = 1, day = 5,
                   hour = 8, minute = 0, second = 0, microsecond = 0\<rparr>"
  have low: "ascii_lower s = [] \<longleftrightarrow> s = []" for s
    by (simp add: ascii_lower_def)
  have src: "is_dir mail_disk (org.source invoice_rule)"
    by (simp add: is_dir_def mail_disk_def invoice_rule_def)
  have win: "date_window strptime_sample invoice_rule = Inr (Some january_start, Some january_end)"
    by (simp add: date_window_def invoice_rule_def parse_date_def strptime_sample_def
        january_start_def january_tenth_def january_end_def)
  have inv: "?inv \<in> set (iterdir mail_disk (org.source invoice_rule)) \<and> \<not> is_dir mail_disk ?inv
      \<and> read_mtime mail_disk ?inv = Some ?t_inv
      \<and> passes_date_filter (Some january_start) (Some january_end) ?t_inv"
    by (simp add: set_iterdir parent_def is_dir_def read_mtime_def mail_disk_def invoice_rule_def
        passes_date_filter_def dt_less_def dt_key_def january_start_def january_end_def)
  have memo: "?memo \<in> set (iterdir mail_disk (org.source invoice_rule)) \<and> \<not> is_dir mail_disk ?memo
      \<and> read_mtime mail_disk ?memo = Some ?t_note
      \<and> passes_date_filter (Some january_start) (Some january_end) ?t_note"
    by (simp add: set_iterdir parent_def is_dir_def read_mtime_def mail_disk_def invoice_rule_def
        passes_date_filter_def dt_less_def dt_key_def january_start_def january_end_def)
  have hit: "\<exists>kw\<in>set (keywords invoice_rule).
      kw \<noteq> [] \<and> sublist (ascii_lower kw) (ascii_lower (name ?inv))"
    by (simp add: invoice_rule_def name_def ascii_lower_def)
  have miss: "\<not> (\<exists>kw\<in>set (keywords invoice_rule).
      kw \<noteq> [] \<and> sublist (ascii_lower kw) (ascii_lower (name ?memo)))"
    by (simp add: invoice_rule_def name_def ascii_lower_def) code_simp
  from get_matched_files_keyword_iff [of ascii_lower, OF low src win]
  obtain matched where call:
      "get_matched_files ascii_lower strptime_sample mail_disk invoice_rule = Inr matched"
    and each: "\<forall>p mtime.
               p \<in> set (iterdir mail_disk (org.source invoice_rule)) \<and> \<not> is_dir mail_disk p
               \<and> read_mtime mail_disk p = Some mtime
               \<and> passes_date_filter (Some january_start) (Some january_end) mtime
               \<longrightarrow> (p \<in> set matched \<longleftrightarrow>
                      (\<exists>kw\<in>set (keywords invoice_rule).
                         kw \<noteq> [] \<and> sublist (ascii_lower kw) (ascii_lower (name p))))"
    by (elim exE conjE)
  from each inv have "?inv \<in> set matched \<longleftrightarrow>
      (\<exists>kw\<in>set (keywords invoice_rule).
         kw \<noteq> [] \<and> sublist (ascii_lower kw) (ascii_lower (name ?inv)))"
    by (elim allE impE)
  with hit have a: "?inv \<in> set matched" by (elim iffE impE)
  from each memo have "?memo \<in> set matched \<longleftrightarrow>
      (\<exists>kw\<in>set (keywords invoice_rule).
         kw \<noteq> [] \<and> sublist (ascii_lower kw) (ascii_lower (name ?memo)))"
    by (elim allE impE)
  with miss have b: "?memo \<notin> set matched" by (elim iffE) (rule notI, elim impE notE)
  from low have low': "\<forall>s. ascii_lower s = [] \<longleftrightarrow> s = []" by (rule allI)
  from low' src win call a b show ?thesis
    by (intro conjI exI [of _ matched])
qed

text \<open>
  Claim C7.  With the date filter disabled, two rules that differ only in their start
  and end dates give the same result on the same tree, whatever the dates are (also
  when they do not parse) and whatever the two library functions do.
\<close>

theorem date_fields_ignored_when_disabled:
  assumes "\<not> date_filter_enabled rule"
  shows "get_matched_files lower strptime fs (rule\<lparr>start_date := start_a, end_date := end_a\<rparr>)
       = get_matched_files lower strptime fs (rule\<lparr>start_date := start_b, end_date := end_b\<rparr>)"
  using assms by (simp add: get_matched_files_def date_window_def)

definition scan_all_rule :: org where
  "scan_all_rule =
     \<lparr>org.source = [''in''], keywords = [''invoice''], destination = [''out''],
      date_filter_enabled = False, start_date = None, end_date = None\<rparr>"

theorem date_fields_ignored_when_disabled_witness:
  "\<not> date_filter_enabled scan_all_rule
   \<and> get_matched_files ascii_lower strptime_sample mail_disk
         (scan_all_rule\<lparr>start_date := Some ''2030-01-01'', end_date := Some ''not a date''\<rparr>)
       = get_matched_files ascii_lower strptime_sample mail_disk
           (scan_all_rule\<lparr>start_date := None, end_date := None\<rparr>)
   \<and> get_matched_files ascii_lower strptime_sample mail_disk
         (scan_all_rule\<lparr>start_date := None, end_date := None\<rparr>)
       = Inr [[''in'', ''Invoice_Jan.pdf'']]"
proof -
  have off: "\<not> date_filter_enabled scan_all_rule"
    by (simp add: scan_all_rule_def)
  have val: "get_matched_files ascii_lower strptime_sample mail_disk
         (scan_all_rule\<lparr>start_date := None, end_date := None\<rparr>)
       = Inr [[''in'', ''Invoice_Jan.pdf'']]"
    by code_simp
  from date_fields_ignored_when_disabled [OF off, where lower = ascii_lower
      and strptime = strptime_sample and fs = mail_disk
      and start_a = "Some ''2030-01-01''" and end_a = "Some ''not a date''"
      and start_b = None and end_b = None] off val
  show ?thesis by (intro conjI)
qed

section \<open>The worker that runs a batch\<close>

text \<open>
  What the worker leaves on the queue when it ends: \<^verbatim>\<open>("done", results)\<close> or
  \<^verbatim>\<open>("error", str(e))\<close>.
\<close>

datatype message = Done "outcome list" | Failed string

text \<open>
  \<^verbatim>\<open>worker\<close> of \<^verbatim>\<open>_run_move_in_thread\<close>.  Its progress callback puts on the queue and
  does not raise; \<open>now\<close> is \<^verbatim>\<open>datetime.utcnow().isoformat()\<close>.
\<close>

definition worker :: "world \<Rightarrow> path list \<Rightarrow> org \<Rightarrow> bool \<Rightarrow> string \<Rightarrow> world \<times> message" where
  "worker w matched_files rule dry_run now =
     (case move_files w matched_files (destination rule) dry_run (Some False) of
        (w1, Inl e) \<Rightarrow> (w1, Failed (str_error e))
      | (w1, Inr results) \<Rightarrow>
          (let record =
                 \<lparr>timestamp = now,
                  operations =
                    map (\<lambda>r. \<lparr>outcome.source = outcome.source r, dest = dest r,
                               action = action r\<rparr>) results\<rparr>
           in (if \<not> dry_run \<and> list_ex (\<lambda>r. action r = ''moved'') results
               then save_undo_record w1 record
               else w1,
               Done results)))"

lemma move_one_ledger:
  "undo_file (snd (move_one d dry src w)) = undo_file w"
  "write_fault (snd (move_one d dry src w)) = write_fault w"
  by (simp_all add: move_one_def Let_def split: sum.split)

lemma move_loop_ledger:
  "undo_file (snd (move_loop d dry cb total' files completed w)) = undo_file w
   \<and> write_fault (snd (move_loop d dry cb total' files completed w)) = write_fault w"
proof (induction files arbitrary: completed w)
  case Nil
  show ?case by simp
next
  case (Cons src rest)
  obtain r w1 where one: "move_one d dry src w = (r, w1)"
    by (cases "move_one d dry src w")
  from move_one_ledger [of d dry src w] one
  have "undo_file w1 = undo_file w" "write_fault w1 = write_fault w" by simp_all
  with Cons.IH [of "completed + 1" "notify cb (completed + 1) total' w1"] one show ?case
    by (cases "move_loop d dry cb total' rest (completed + 1) (notify cb (completed + 1) total' w1)")
       (simp add: notify_ledger)
qed

lemma move_files_ledger:
  "undo_file (fst (move_files w files d dry cb)) = undo_file w
   \<and> write_fault (fst (move_files w files d dry cb)) = write_fault w"
proof (cases "mkdir_parents (disk w) d")
  case (Inl e)
  then show ?thesis by (simp add: move_files_def)
next
  case (Inr made)
  with move_loop_ledger [of d dry cb "length files" files 0 "w\<lparr>disk := made\<rparr>"]
  show ?thesis
    by (cases "move_loop d dry cb (length files) files 0 (w\<lparr>disk := made\<rparr>)")
       (simp add: move_files_def)
qed

text \<open>
  Claim C4, as amended.  After a real execution that returns a result list, the worker
  reports the batch as done, and it writes the batch with all the entries of that list
  to the ledger exactly when at least one entry says \<^verbatim>\<open>moved\<close>.  When the write
  succeeds the ledger holds that batch in place of whatever it held; a write that
  fails is swallowed and leaves the ledger as it was (the file could not be opened) or
  torn (the dump broke off).  When no entry says \<^verbatim>\<open>moved\<close> nothing is written and
  the ledger is what it was before.
\<close>

theorem worker_saves_iff_some_moved:
  assumes "move_files w files (destination rule) False (Some False) = (w1, Inr results)"
  shows "snd (worker w files rule False now) = Done results
       \<and> undo_file (fst (worker w files rule False now)) =
           (if \<exists>r\<in>set results. action r = ''moved''
            then (case write_fault w of
                    None \<Rightarrow> Stored \<lparr>timestamp = now, operations = results\<rparr>
                  | Some OpenFails \<Rightarrow> undo_file w
                  | Some DumpFails \<Rightarrow> Torn)
            else undo_file w)"
proof -
  have same: "map (\<lambda>r. \<lparr>outcome.source = outcome.source r, dest = dest r, action = action r\<rparr>)
      results = results"
    by (induction results) simp_all
  from move_files_ledger [of w files "destination rule" False "Some False"] assms
  have kept: "undo_file w1 = undo_file w" "write_fault w1 = write_fault w" by simp_all
  show ?thesis
    using assms
    by (simp add: worker_def same kept save_undo_record_def list_ex_iff
        split: option.split write_fault.split)
qed

definition out_rule :: org where
  "out_rule =
     \<lparr>org.source = [''in''], keywords = [''txt''], destination = [''out''],
      date_filter_enabled = False, start_date = None, end_date = None\<rparr>"

text \<open>
  Claim C4 as stated fails: a real execution in which no file could be moved saves no
  record.  Here the only matched file has gone and nothing hinders a write; the worker
  reports the batch as done, and the ledger stays absent.
\<close>

theorem worker_saves_nothing_without_move:
  "worker inbox_world [[''in'', ''b.txt'']] out_rule False ''2024-01-10T12:00:00''
     = (inbox_world\<lparr>disk := fmupd [''out''] Dir inbox_disk, progress := [(1, 1)]\<rparr>,
        Done [\<lparr>outcome.source = [''in'', ''b.txt''], dest = [''out''],
               action = ''error: '' @ str_error (FileNotFoundError [''in'', ''b.txt''])\<rparr>])
   \<and> undo_file (fst (worker inbox_world [[''in'', ''b.txt'']] out_rule False
         ''2024-01-10T12:00:00'')) = Absent"
  by (simp add: worker_def out_rule_def inbox_world_def inbox_disk_def run_simps)


text \<open>
  A real batch over \<^verbatim>\<open>/in/a.txt\<close>, which is there, and \<^verbatim>\<open>/in/b.txt\<close>, which has
  gone since it was matched: its result list, and the world the worker leaves.
\<close>

definition one_moved_one_failed :: "outcome list" where
  "one_moved_one_failed =
     [\<lparr>outcome.source = [''in'', ''a.txt''], dest = [''out'', ''a.txt''], action = ''moved''\<rparr>,
      \<lparr>outcome.source = [''in'', ''b.txt''], dest = [''out''],
       action = ''error: '' @ str_error (FileNotFoundError [''in'', ''b.txt''])\<rparr>]"

definition failed_batch_world :: world where
  "failed_batch_world =
     fst (worker inbox_world [[''in'', ''a.txt''], [''in'', ''b.txt'']] out_rule False
            ''2024-01-10T12:00:00'')"

theorem worker_saves_iff_some_moved_witness:
  "snd (move_files inbox_world [[''in'', ''a.txt''], [''in'', ''b.txt'']] (destination out_rule)
          False (Some False)) = Inr one_moved_one_failed
   \<and> (\<exists>r\<in>set one_moved_one_failed. action r = ''moved'')
   \<and> write_fault inbox_world = None
   \<and> snd (worker inbox_world [[''in'', ''a.txt''], [''in'', ''b.txt'']] out_rule False
         ''2024-01-10T12:00:00'') = Done one_moved_one_failed
   \<and> undo_file (fst (worker inbox_world [[''in'', ''a.txt''], [''in'', ''b.txt'']] out_rule False
         ''2024-01-10T12:00:00''))
       = Stored \<lparr>timestamp = ''2024-01-10T12:00:00'', operations = one_moved_one_failed\<rparr>"
proof -
  let ?call = "move_files inbox_world [[''in'', ''a.txt''], [''in'', ''b.txt'']]
                 (destination out_rule) False (Some False)"
  have res: "snd ?call = Inr one_moved_one_failed"
    by (simp add: out_rule_def inbox_world_def inbox_disk_def one_moved_one_failed_def run_simps)
  then have h: "?call = (fst ?call, Inr one_moved_one_failed)"
    by (metis prod.collapse)
  have some: "\<exists>r\<in>set one_moved_one_failed. action r = ''moved''"
    by (simp add: one_moved_one_failed_def)
  have sound: "write_fault inbox_world = None"
    by (simp add: inbox_world_def)
  note both = worker_saves_iff_some_moved [OF h, of "''2024-01-10T12:00:00''"]
  from both have told: "snd (worker inbox_world [[''in'', ''a.txt''], [''in'', ''b.txt'']] out_rule
         False ''2024-01-10T12:00:00'') = Done one_moved_one_failed"
    by (rule conjunct1)
  from both [THEN conjunct2] some sound
  have "undo_file (fst (worker inbox_world [[''in'', ''a.txt''], [''in'', ''b.txt'']] out_rule False
         ''2024-01-10T12:00:00''))
       = Stored \<lparr>timestamp = ''2024-01-10T12:00:00'', operations = one_moved_one_failed\<rparr>"
    by (simp only: if_True option.case)
  with res some sound told show ?thesis by (intro conjI)
qed

section \<open>Undo after a batch with a failed entry\<close>

text \<open>
  Claim C3, at an input where it fails.  The error entry of the batch above records the
  destination directory \<^verbatim>\<open>/out\<close> as its \<^verbatim>\<open>dest\<close>, and that directory exists.
  \<open>undo_last\<close> therefore does not skip the entry: it moves the whole directory to
  \<^verbatim>\<open>/in/b.txt\<close> and reports \<^verbatim>\<open>restored\<close>.
\<close>

theorem undo_moves_destination_for_error_entry:
  "undo_file failed_batch_world
     = Stored \<lparr>timestamp = ''2024-01-10T12:00:00'', operations = one_moved_one_failed\<rparr>
   \<and> path_exists (disk failed_batch_world) [''out'']
   \<and> snd (undo_last failed_batch_world None)
       = UndoOk
           [\<lparr>outcome.source = [''out''], dest = [''in'', ''b.txt''], action = ''restored''\<rparr>,
            \<lparr>outcome.source = [''out'', ''a.txt''], dest = [''in'', ''a.txt''],
             action = ''skipped_not_found''\<rparr>]
   \<and> fmlookup (disk (fst (undo_last failed_batch_world None))) [''out''] = None
   \<and> fmlookup (disk (fst (undo_last failed_batch_world None))) [''in'', ''b.txt''] = Some Dir"
  by (simp add: failed_batch_world_def one_moved_one_failed_def worker_def out_rule_def
      inbox_world_def inbox_disk_def run_simps)

text \<open>
  Claim C1, at an input where it fails.  In the same batch \<^verbatim>\<open>/in/a.txt\<close> was moved to
  \<^verbatim>\<open>/out/a.txt\<close>; when \<open>undo_last\<close> is called it still sits there and its original
  place is free.  Yet after the undo the file is not back at \<^verbatim>\<open>/in/a.txt\<close>: the error
  entry was undone first and took the directory, and the file with it, to
  \<^verbatim>\<open>/in/b.txt\<close>.
\<close>

theorem round_trip_lost_after_error_entry:
  "fmlookup (disk inbox_world) [''in'', ''a.txt''] = Some (File ''alpha'' None)
   \<and> snd (worker inbox_world [[''in'', ''a.txt''], [''in'', ''b.txt'']] out_rule False
        ''2024-01-10T12:00:00'') = Done one_moved_one_failed
   \<and> fmlookup (disk failed_batch_world) [''out'', ''a.txt''] = Some (File ''alpha'' None)
   \<and> fmlookup (disk failed_batch_world) [''in'', ''a.txt''] = None
   \<and> fmlookup (disk (fst (undo_last failed_batch_world None))) [''in'', ''a.txt''] = None
   \<and> fmlookup (disk (fst (undo_last failed_batch_world None))) [''in'', ''b.txt'', ''a.txt'']
       = Some (File ''alpha'' None)"
  by (simp add: failed_batch_world_def one_moved_one_failed_def worker_def out_rule_def
      inbox_world_def inbox_disk_def run_simps)

section \<open>The round trip of a batch without errors\<close>

lemma shutil_move_file:
  assumes "fmlookup fs src = Some (File c t)"
    and "\<not> path_exists fs dst"
    and "is_dir fs (parent dst)"
  shows "shutil_move fs src dst = Inr (fmupd dst (File c t) (fmdrop src fs))"
proof -
  from assms(2) have "\<not> is_dir fs dst" by (simp add: path_exists_def is_dir_def)
  with assms show ?thesis by (simp add: shutil_move_def)
qed

lemma move_there_and_back:
  assumes "fmlookup fs src = Some (File c t)" and "fmlookup fs dst = None"
  shows "fmupd src (File c t) (fmdrop dst (fmupd dst (File c t) (fmdrop src fs))) = fs"
proof (rule fmap_ext)
  fix p
  from assms show "fmlookup (fmupd src (File c t) (fmdrop dst (fmupd dst (File c t) (fmdrop src fs)))) p
      = fmlookup fs p"
    by auto
qed

lemma joinpath_parent_name: "name p \<noteq> [] \<Longrightarrow> joinpath (parent p) (name p) = p"
  by (auto simp: joinpath_def parent_def name_def split: if_splits)

text \<open>
  One step of a real run that ends in \<^verbatim>\<open>moved\<close>, for a regular file with a proper
  name in an existing directory: no directory appears or disappears, and undoing the
  entry in the tree the step left gives back the tree it started from.
\<close>

lemma move_one_moved:
  assumes step: "move_one d False src w = (r, wa)"
    and moved: "action r = ''moved''"
    and dest_dir: "is_dir (disk w) d"
    and named: "name src \<noteq> []"
    and plain: "\<not> is_dir (disk w) src"
    and home: "is_dir (disk w) (parent src)"
  shows "is_dir (disk wa) q = is_dir (disk w) q"
    and "disk u = disk wa \<Longrightarrow> disk (snd (undo_one r u)) = disk w"
proof -
  let ?fs = "disk w"
  let ?dest_path = "unique_dest ?fs d (name src)"
  have fresh: "\<not> path_exists ?fs ?dest_path" by (rule unique_dest_fresh)
  from dest_dir have "path_exists ?fs d" by (simp add: is_dir_def path_exists_def)
  then have par: "parent ?dest_path = d" by (rule parent_unique_dest)
  from step moved obtain moved_disk where
    mv: "shutil_move ?fs src ?dest_path = Inr moved_disk"
    and r: "r = \<lparr>outcome.source = src, dest = ?dest_path, action = ''moved''\<rparr>"
    and wa: "wa = w\<lparr>disk := moved_disk\<rparr>"
    by (auto simp: move_one_def Let_def split: sum.splits)
  from fresh have not_dir: "\<not> is_dir ?fs ?dest_path"
    by (simp add: path_exists_def is_dir_def)
  from mv not_dir plain obtain c t where node_at: "fmlookup ?fs src = Some (File c t)"
    by (cases "fmlookup ?fs src"; cases "the (fmlookup ?fs src)")
       (auto simp: shutil_move_def is_dir_def)
  from shutil_move_file [OF node_at fresh] par dest_dir mv
  have md: "moved_disk = fmupd ?dest_path (File c t) (fmdrop src ?fs)" by simp
  from node_at fresh have differ: "src \<noteq> ?dest_path" by (auto simp: path_exists_def)
  from fresh have absent: "fmlookup ?fs ?dest_path = None" by (simp add: path_exists_def)
  show "is_dir (disk wa) q = is_dir (disk w) q"
    using node_at absent by (auto simp: wa md is_dir_def)
  assume u: "disk u = disk wa"
  have there: "path_exists (disk u) ?dest_path"
    by (simp add: u wa md path_exists_def)
  have gone: "\<not> path_exists (disk u) src"
    using differ by (simp add: u wa md path_exists_def)
  have home_again: "unique_dest (disk u) (parent src) (name src) = src"
    using gone by (simp add: unique_dest_def joinpath_parent_name [OF named])
  have at_dest: "fmlookup (disk u) ?dest_path = Some (File c t)"
    by (simp add: u wa md)
  have home_dir: "is_dir (disk u) (parent src)"
    using home node_at absent by (auto simp: u wa md is_dir_def)
  note shutil_move_file [OF at_dest gone home_dir]
  with there home_again have "disk (snd (undo_one r u)) = fmupd src (File c t) (fmdrop ?dest_path (disk u))"
    by (simp add: undo_one_def r Let_def)
  also have "\<dots> = ?fs"
    using move_there_and_back [OF node_at absent] by (simp add: u wa md)
  finally show "disk (snd (undo_one r u)) = disk w" .
qed

lemma round_trip_loop:
  assumes "move_loop d False cb total' files completed w = (rs, w1)"
    and "\<forall>r\<in>set rs. action r = ''moved''"
    and "is_dir (disk w) d"
    and "\<forall>p\<in>set files. name p \<noteq> [] \<and> \<not> is_dir (disk w) p \<and> is_dir (disk w) (parent p)"
    and "disk v = disk w1"
  shows "disk (fold (\<lambda>op u. snd (undo_one op u)) (rev rs) v) = disk w"
  using assms
proof (induction files arbitrary: completed w rs v w1)
  case Nil
  then show ?case by simp
next
  case (Cons src rest)
  obtain r wa where one: "move_one d False src w = (r, wa)"
    by (cases "move_one d False src w")
  let ?w2 = "notify cb (completed + 1) total' wa"
  obtain rs' w3 where loop: "move_loop d False cb total' rest (completed + 1) ?w2 = (rs', w3)"
    by (cases "move_loop d False cb total' rest (completed + 1) ?w2")
  from Cons.prems(1) one loop have rs: "rs = r # rs'" and w1: "w1 = w3" by simp_all
  from Cons.prems(2) rs have moved: "action r = ''moved''" and rest_moved: "\<forall>r\<in>set rs'. action r = ''moved''"
    by simp_all
  from Cons.prems(4) have named: "name src \<noteq> []" and plain: "\<not> is_dir (disk w) src"
    and home: "is_dir (disk w) (parent src)" by simp_all
  note step = move_one_moved [OF one moved Cons.prems(3) named plain home]
  have dirs: "is_dir (disk wa) q = is_dir (disk w) q" for q
    by (rule step(1))
  have "disk (fold (\<lambda>op u. snd (undo_one op u)) (rev rs') v) = disk ?w2"
  proof (rule Cons.IH [OF loop rest_moved])
    show "is_dir (disk ?w2) d" using Cons.prems(3) by (simp add: notify_disk dirs)
    show "\<forall>p\<in>set rest. name p \<noteq> [] \<and> \<not> is_dir (disk ?w2) p \<and> is_dir (disk ?w2) (parent p)"
      using Cons.prems(4) by (simp add: notify_disk dirs)
    show "disk v = disk w3" using Cons.prems(5) w1 by simp
  qed
  then have "disk (fold (\<lambda>op u. snd (undo_one op u)) (rev rs') v) = disk wa"
    by (simp add: notify_disk)
  from step(2) [OF this] show ?case by (simp add: rs)
qed

text \<open>
  What does hold of the round trip: when every entry of a real batch over regular files
  says \<^verbatim>\<open>moved\<close> and the record the worker wrote can be read back, the
  \<open>undo_last\<close> that follows leaves the tree as it was when the destination had just
  been created (every file back at its original path, every recorded destination free
  again).
\<close>

lemma round_trip_without_errors:
  assumes made: "mkdir_parents (disk w) (destination rule) = Inr made"
    and files: "\<forall>p\<in>set files. name p \<noteq> [] \<and> \<not> is_dir made p \<and> is_dir made (parent p)"
    and run: "worker w files rule False now = (w1, Done results)"
    and readable: "load_undo_record w1 = Some \<lparr>timestamp = now, operations = results\<rparr>"
    and moved: "\<forall>r\<in>set results. action r = ''moved''"
  shows "disk (fst (undo_last w1 cb)) = made"
    and "\<exists>undone. snd (undo_last w1 cb) = UndoOk undone
           \<and> map outcome.source undone = rev (map dest results)"
proof -
  let ?w0 = "w\<lparr>disk := made\<rparr>"
  let ?d = "destination rule"
  obtain rs w' where loop: "move_loop ?d False (Some False) (length files) files 0 ?w0 = (rs, w')"
    by (cases "move_loop ?d False (Some False) (length files) files 0 ?w0")
  with made have call: "move_files w files ?d False (Some False) = (w', Inr rs)"
    by (simp add: move_files_def)
  from run call have res: "results = rs" by (simp add: worker_def Let_def)
  from run call have d1: "disk w1 = disk w'"
    by (auto simp: worker_def Let_def save_undo_record_def
        split: if_splits option.splits write_fault.splits)
  obtain undone w2 where undo: "undo_loop cb (length rs) (rev rs) 0 w1 = (undone, w2)"
    by (cases "undo_loop cb (length rs) (rev rs) 0 w1")
  with readable res have last: "undo_last w1 cb = (unlink_undo_file w2, UndoOk undone)"
    by (simp add: undo_last_def)
  have dest_dir: "is_dir (disk ?w0) ?d"
    using mkdir_parents_is_dir [OF made, of ?d] by simp
  have "disk w2 = disk (fold (\<lambda>op u. snd (undo_one op u)) (rev rs) w1)"
    using undo_loop_disk [OF refl, of cb "length rs" "rev rs" 0 w1] undo by simp
  also have "\<dots> = disk ?w0"
    using loop _ dest_dir _ d1
  proof (rule round_trip_loop)
    show "\<forall>r\<in>set rs. action r = ''moved''" using moved res by simp
    show "\<forall>p\<in>set files. name p \<noteq> [] \<and> \<not> is_dir (disk ?w0) p \<and> is_dir (disk ?w0) (parent p)"
      using files by simp
  qed
  finally have "disk w2 = made" by simp
  with last show "disk (fst (undo_last w1 cb)) = made"
    by (simp add: unlink_undo_file_def)
  have "map outcome.source undone = map dest (rev rs)"
    using undo_loop_sources [of cb "length rs" "rev rs" 0 w1] undo by simp
  with last res show "\<exists>undone. snd (undo_last w1 cb) = UndoOk undone
      \<and> map outcome.source undone = rev (map dest results)"
    by (simp add: rev_map)
qed

end
